(* ===== verification/Prelude.thy ===== *)
theory Prelude
  imports Main "HOL-Library.Word" "HOL-Library.Sublist"
begin

text \<open>
  What every component of the model shares. C++ \<open>char\<close> values and the bytes of a socket are
  HOL \<open>char\<close>s (8 bits); a \<open>std::string\<close> and a C string are lists of them. On the target of the
  Makefile (x86-64 Linux, gcc) plain \<open>char\<close> is signed: \<open>schar\<close> is the promotion of a \<open>char\<close> to
  \<open>int\<close>, \<open>uchar\<close> the value of an \<open>unsigned char\<close>. A C++ \<open>int\<close> is an \<open>int\<close> with its range written
  out (\<open>in_int32\<close>), since signed overflow is undefined behaviour and not a wrap-around.

  The theory also holds the outcome type for undefined behaviour, the members of \<open>std::string\<close>
  and \<open><cctype>\<close> the program calls, the decimal printer the statements of the round trips use,
  and the generic lemmas on lists the component theories share.
\<close>

named_theorems char_class "membership of characters in the character classes"
named_theorems step_simps "one-step equations of the state machines"

section \<open>Undefined behaviour as a value\<close>

text \<open>
  Operations that C++ leaves undefined are errors of the model, never silently some value:
  \<open>back()\<close> of an empty vector, overflow of a signed integer, a \<open>std::string\<close> built from a null
  pointer, a read of an uninitialised member, a read or write past the end of a buffer, an access
  through a null pointer, a division by zero.
\<close>

datatype ub =
    Back_of_empty_vector | Signed_overflow | Null_string | Uninitialised_read |
    Out_of_bounds_write | Out_of_bounds_read | Null_dereference | Division_by_zero

type_synonym 'a outcome = "ub + 'a"

section \<open>Characters and machine integers\<close>

definition uchar :: "char \<Rightarrow> nat" where
  "uchar c = of_char c"

definition schar :: "char \<Rightarrow> int" where
  "schar c = (if uchar c < 128 then int (uchar c) else int (uchar c) - 256)"

text \<open>\<open>static_cast<char>(i)\<close> of an \<open>int\<close>: the low eight bits.\<close>

definition char_of_int :: "int \<Rightarrow> char" where
  "char_of_int i = char_of (nat (i mod 256))"

definition in_int32 :: "int \<Rightarrow> bool" where
  "in_int32 i \<longleftrightarrow> - 2147483648 \<le> i \<and> i \<le> 2147483647"

text \<open>Conversion of a 64-bit \<open>long\<close> to \<open>int\<close> (gcc: modulo \<open>2 ^ 32\<close>).\<close>

definition int_of_long :: "int \<Rightarrow> int" where
  "int_of_long i = (i + 2147483648) mod 4294967296 - 2147483648"

lemma uchar_less: "uchar c < 256"
  by (simp add: uchar_def)

lemma uchar_Char [simp]:
  "uchar (Char b0 b1 b2 b3 b4 b5 b6 b7) = horner_sum of_bool 2 [b0, b1, b2, b3, b4, b5, b6, b7]"
  by (simp add: uchar_def)

lemma uchar_inj [simp]: "uchar c = uchar d \<longleftrightarrow> c = d"
  by (simp add: uchar_def)

lemma char_of_uchar [simp]: "char_of (uchar c) = c"
  by (simp add: uchar_def)

lemma uchar_char_of [simp]: "n < 256 \<Longrightarrow> uchar (char_of n) = n"
  by (simp add: uchar_def)

lemma schar_inj [simp]: "schar c = schar d \<longleftrightarrow> c = d"
proof -
  have "schar c = schar d \<Longrightarrow> uchar c = uchar d"
    using uchar_less [of c] uchar_less [of d]
    by (simp add: schar_def split: if_splits del: uchar_inj)
  then show ?thesis by auto
qed

lemma char_eq_uchar: "c = d \<longleftrightarrow> uchar c = uchar d"
  by simp

lemma schar_range: "- 128 \<le> schar c" "schar c \<le> 127"
  using uchar_less [of c] by (auto simp: schar_def)

lemma char_of_int_uchar [simp]: "char_of_int (int (uchar c)) = c"
  using uchar_less [of c] by (simp add: char_of_int_def)

lemma int_of_long_id: "in_int32 i \<Longrightarrow> int_of_long i = i"
  by (simp add: int_of_long_def in_int32_def)

lemma int_of_long_range: "in_int32 (int_of_long i)"
  by (simp add: int_of_long_def in_int32_def)

section \<open>The character classes of the C locale\<close>

definition isspace :: "char \<Rightarrow> bool" where
  "isspace c \<longleftrightarrow> uchar c = 32 \<or> 9 \<le> uchar c \<and> uchar c \<le> 13"

definition isdigit :: "char \<Rightarrow> bool" where
  "isdigit c \<longleftrightarrow> 48 \<le> uchar c \<and> uchar c \<le> 57"

definition isupper :: "char \<Rightarrow> bool" where
  "isupper c \<longleftrightarrow> 65 \<le> uchar c \<and> uchar c \<le> 90"

definition islower :: "char \<Rightarrow> bool" where
  "islower c \<longleftrightarrow> 97 \<le> uchar c \<and> uchar c \<le> 122"

definition isalpha :: "char \<Rightarrow> bool" where
  "isalpha c \<longleftrightarrow> isupper c \<or> islower c"

definition isalnum :: "char \<Rightarrow> bool" where
  "isalnum c \<longleftrightarrow> isalpha c \<or> isdigit c"

definition tolower :: "char \<Rightarrow> char" where
  "tolower c = (if isupper c then char_of (uchar c + 32) else c)"

lemma tolower_idem [simp]: "tolower (tolower c) = tolower c"
  by (simp add: tolower_def isupper_def)

lemma tolower_not_upper: "\<not> isupper c \<Longrightarrow> tolower c = c"
  by (simp add: tolower_def)

lemma uchar_tolower: "uchar (tolower c) = (if isupper c then uchar c + 32 else uchar c)"
  by (simp add: tolower_def isupper_def)

lemma map_tolower_idem [simp]: "map tolower (map tolower s) = map tolower s"
  by simp

lemma isdigit_not_isspace: "isdigit c \<Longrightarrow> \<not> isspace c"
  by (auto simp: isdigit_def isspace_def)

section \<open>Members of std::string\<close>

text \<open>\<open>s.find(d, pos)\<close>: the first occurrence at or after \<open>pos\<close>, \<open>None\<close> for \<open>npos\<close>.\<close>

fun find_from :: "string \<Rightarrow> string \<Rightarrow> nat \<Rightarrow> nat option" where
  "find_from d [] k = (if d = [] then Some k else None)"
| "find_from d (c # cs) k =
     (if prefix d (c # cs) then Some k else find_from d cs (Suc k))"

definition str_find :: "string \<Rightarrow> string \<Rightarrow> nat \<Rightarrow> nat option" where
  "str_find s d pos = (if pos \<le> length s then find_from d (drop pos s) pos else None)"

text \<open>\<open>s.substr(pos, n)\<close> for \<open>pos\<close> within the string, which every call of the program ensures.\<close>

definition substr :: "string \<Rightarrow> nat \<Rightarrow> nat \<Rightarrow> string" where
  "substr s pos n = take n (drop pos s)"

lemma find_from_Some:
  "find_from d s k = Some i \<Longrightarrow>
     k \<le> i \<and> i - k + length d \<le> length s \<and> take (length d) (drop (i - k) s) = d"
proof (induction d s k rule: find_from.induct)
  case (1 d k)
  then show ?case by (simp split: if_splits)
next
  case (2 d c cs k)
  show ?case
  proof (cases "prefix d (c # cs)")
    case True
    with "2.prems" show ?thesis
      by (auto simp: prefix_length_le dest: prefix_length_le elim: prefixE)
  next
    case False
    with "2.prems" have "find_from d cs (Suc k) = Some i" by simp
    note ih = "2.IH" [OF False this]
    then obtain m where "i = Suc k + m" by (auto simp: le_iff_add)
    with ih show ?thesis by simp
  qed
qed

lemma find_from_None: "find_from d s k = None \<Longrightarrow> \<not> sublist d s"
proof (induction d s k rule: find_from.induct)
  case (1 d k)
  then show ?case by (auto split: if_splits)
next
  case (2 d c cs k)
  then show ?case by (auto simp: sublist_Cons_right split: if_splits)
qed

lemma find_from_first:
  "find_from d s k = Some i \<Longrightarrow> j < i - k \<Longrightarrow> \<not> prefix d (drop j s)"
proof (induction d s k arbitrary: j rule: find_from.induct)
  case (1 d k)
  then show ?case by (simp split: if_splits)
next
  case (2 d c cs k)
  then show ?case by (cases j) (auto split: if_splits)
qed

lemma find_from_char:
  "find_from [c] s k = (if c \<in> set s then Some (k + length (takeWhile (\<lambda>x. x \<noteq> c) s)) else None)"
  by (induction s arbitrary: k) auto

text \<open>The C string at the start of some memory: the characters before the first zero.\<close>

definition c_str :: "string \<Rightarrow> string" where
  "c_str s = takeWhile (\<lambda>c. c \<noteq> CHR 0x00) s"

lemma c_str_plain: "CHR 0x00 \<notin> set s \<Longrightarrow> c_str s = s"
  by (auto simp: c_str_def takeWhile_eq_all_conv)

lemma c_str_append_zero: "CHR 0x00 \<notin> set s \<Longrightarrow> c_str (s @ CHR 0x00 # t) = s"
  by (induction s) (auto simp: c_str_def)

lemma c_str_nul_free: "CHR 0x00 \<notin> set (c_str s)"
  by (auto simp: c_str_def dest: set_takeWhileD)

text \<open>The line end of HTTP.\<close>

definition crlf :: string where
  "crlf = [CHR 0x0D, CHR 0x0A]"

section \<open>Decimal numerals\<close>

definition digit_char :: "nat \<Rightarrow> char" where
  "digit_char d = char_of (48 + d)"

fun dec_string :: "nat \<Rightarrow> string" where
  "dec_string n =
     (if n < 10 then [digit_char n] else dec_string (n div 10) @ [digit_char (n mod 10)])"

declare dec_string.simps [simp del]

definition digits_val :: "string \<Rightarrow> nat" where
  "digits_val s = foldl (\<lambda>a c. a * 10 + (uchar c - 48)) 0 s"

lemma digits_val_snoc [simp]: "digits_val (s @ [c]) = digits_val s * 10 + (uchar c - 48)"
  by (simp add: digits_val_def)

lemma uchar_digit_char [simp]: "d < 10 \<Longrightarrow> uchar (digit_char d) = 48 + d"
  by (simp add: digit_char_def)

lemma digit_char_simps:
  "digit_char 0 = CHR ''0''" "digit_char 1 = CHR ''1''" "digit_char 2 = CHR ''2''"
  "digit_char 3 = CHR ''3''" "digit_char 4 = CHR ''4''" "digit_char 5 = CHR ''5''"
  "digit_char 6 = CHR ''6''" "digit_char 7 = CHR ''7''" "digit_char 8 = CHR ''8''"
  "digit_char 9 = CHR ''9''"
  by (simp_all add: digit_char_def char_of_def bit_iff_odd)

lemmas dec_eval = dec_string.simps digit_char_simps [simplified One_nat_def]
  digit_char_simps(2)

lemma isdigit_digit_char [simp]: "d < 10 \<Longrightarrow> isdigit (digit_char d)"
  by (simp add: isdigit_def)

lemma dec_string_nonempty [simp]: "dec_string n \<noteq> []"
  by (subst dec_string.simps) simp

lemma dec_string_digits: "\<forall>c \<in> set (dec_string n). isdigit c"
proof (induction n rule: dec_string.induct)
  case (1 n)
  then show ?case by (subst dec_string.simps) auto
qed

lemma digits_val_dec_string [simp]: "digits_val (dec_string n) = n"
proof (induction n rule: dec_string.induct)
  case (1 n)
  show ?case
  proof (cases "n < 10")
    case True
    then show ?thesis by (subst dec_string.simps) (simp add: digits_val_def)
  next
    case False
    with 1 have "digits_val (dec_string (n div 10)) = n div 10" by blast
    with False show ?thesis by (subst dec_string.simps) simp
  qed
qed

section \<open>Lists\<close>

fun intercalate :: "string \<Rightarrow> string list \<Rightarrow> string" where
  "intercalate d [] = []"
| "intercalate d [t] = t"
| "intercalate d (t # u # us) = t @ d @ intercalate d (u # us)"

lemma intercalate_Cons: "us \<noteq> [] \<Longrightarrow> intercalate d (t # us) = t @ d @ intercalate d us"
  by (cases us) simp_all

lemma intercalate_snoc:
  "ts \<noteq> [] \<Longrightarrow> intercalate d (ts @ [t]) = intercalate d ts @ d @ t"
  by (induction ts rule: induct_list012) simp_all

lemma foldl_back: "foldl f (f a x) xs = foldl f a (x # xs)"
  by simp

lemma list_all_dropWhile: "list_all P xs \<Longrightarrow> dropWhile P xs = []"
  by (induction xs) auto

lemma takeWhile_all: "\<forall>x \<in> set xs. P x \<Longrightarrow> \<not> P y \<Longrightarrow> takeWhile P (xs @ y # ys) = xs"
  by (induction xs) auto

lemma dropWhile_hd: "dropWhile P xs = y # ys \<Longrightarrow> \<not> P y"
  by (metis hd_dropWhile list.distinct(1) list.sel(1))

end
