(* ===== verification/Jansson.thy ===== *)
theory Jansson
  imports Prelude Complex_Main "HOL-Library.AList"
begin

text \<open>
  The functions of the jansson library the program calls. The library is a third party: its
  values are the type variable \<open>'j\<close> and its functions the fields of a record every operation that
  uses them takes as an argument. A null pointer is \<open>None\<close>. Objects are values here: the program
  never keeps a second reference to an object it still changes. Reference counting is not
  modelled. Reals are rational numbers.

  \<open>jansson_contract\<close> is the documented behaviour of objects that some properties assume; the
  datatype \<open>jref\<close> and the record \<open>jref_lib\<close> give an executable instance of it for the witnesses.
\<close>

datatype json_type =
    JSON_OBJECT | JSON_ARRAY | JSON_STRING | JSON_INTEGER | JSON_REAL | JSON_TRUE | JSON_FALSE
  | JSON_NULL

datatype json_flag = JSON_COMPACT | JSON_ENCODE_ANY | JSON_REAL_PRECISION nat

record 'j jansson =
  json_object :: 'j
  json_object_set_new_nocheck :: "'j \<Rightarrow> string \<Rightarrow> 'j option \<Rightarrow> 'j"
  json_object_get :: "'j option \<Rightarrow> string \<Rightarrow> 'j option"
  json_object_items :: "'j \<Rightarrow> (string \<times> 'j) list"
  json_typeof :: "'j \<Rightarrow> json_type"
  json_integer :: "int \<Rightarrow> 'j option"
  json_string :: "string \<Rightarrow> 'j option"
  json_real :: "rat \<Rightarrow> 'j option"
  json_boolean :: "bool \<Rightarrow> 'j option"
  json_integer_value :: "'j \<Rightarrow> int"
  json_string_value :: "'j \<Rightarrow> string option"
  json_real_value :: "'j \<Rightarrow> rat"
  json_loads :: "string \<Rightarrow> 'j option"
  json_dumps :: "'j \<Rightarrow> json_flag list \<Rightarrow> string option"
  json_deep_copy :: "'j option \<Rightarrow> 'j option"

definition json_object_size :: "'j jansson \<Rightarrow> 'j \<Rightarrow> nat" where
  "json_object_size J j = length (json_object_items J j)"

text \<open>
  What the documentation promises of objects: a fresh object is empty; setting a key to a value
  makes that value the key's and leaves the other keys; setting it to a null pointer fails and
  changes nothing; the members are in the order of their insertion, one per key.
\<close>

definition jansson_contract :: "'j jansson \<Rightarrow> bool" where
  "jansson_contract J \<longleftrightarrow>
     json_object_items J (json_object J) = [] \<and>
     (\<forall>x k v. json_object_items J (json_object_set_new_nocheck J x k (Some v)) =
        AList.update k v (json_object_items J x)) \<and>
     (\<forall>x k. json_object_set_new_nocheck J x k None = x) \<and>
     (\<forall>x k. json_object_get J (Some x) k = map_of (json_object_items J x) k) \<and>
     (\<forall>k. json_object_get J None k = None)"

lemma jansson_contractD:
  assumes "jansson_contract J"
  shows "json_object_items J (json_object J) = []"
    and "json_object_items J (json_object_set_new_nocheck J x k (Some v)) =
      AList.update k v (json_object_items J x)"
    and "json_object_set_new_nocheck J x k None = x"
    and "json_object_get J (Some x) k = map_of (json_object_items J x) k"
    and "json_object_get J None k = None"
  using assms by (auto simp: jansson_contract_def)

section \<open>A reference instance\<close>

datatype jref =
    Obj "(string \<times> jref) list" | Arr "jref list" | Str string | Num int | Real rat | Tru | Fls | Nul

fun obj_items :: "jref \<Rightarrow> (string \<times> jref) list" where
  "obj_items (Obj kvs) = kvs"
| "obj_items _ = []"

fun jref_type :: "jref \<Rightarrow> json_type" where
  "jref_type (Obj _) = JSON_OBJECT"
| "jref_type (Arr _) = JSON_ARRAY"
| "jref_type (Str _) = JSON_STRING"
| "jref_type (Num _) = JSON_INTEGER"
| "jref_type (Real _) = JSON_REAL"
| "jref_type Tru = JSON_TRUE"
| "jref_type Fls = JSON_FALSE"
| "jref_type Nul = JSON_NULL"

text \<open>The text of a value. Strings are not escaped and reals not printed: the witnesses use none
  that would need it.\<close>

fun jref_text :: "jref \<Rightarrow> string" and jref_members :: "(string \<times> jref) list \<Rightarrow> string list" where
  "jref_text (Obj kvs) = ''{'' @ intercalate '','' (jref_members kvs) @ ''}''"
| "jref_text (Arr vs) = ''[]''"
| "jref_text (Str s) = [CHR 0x22] @ s @ [CHR 0x22]"
| "jref_text (Num i) = (if i < 0 then ''-'' else []) @ dec_string (nat \<bar>i\<bar>)"
| "jref_text (Real q) = ''0.0''"
| "jref_text Tru = ''true''"
| "jref_text Fls = ''false''"
| "jref_text Nul = ''null''"
| "jref_members [] = []"
| "jref_members ((k, v) # kvs) = ([CHR 0x22] @ k @ [CHR 0x22] @ '':'' @ jref_text v) # jref_members kvs"

definition jref_lib :: "jref jansson" where
  "jref_lib =
     \<lparr>json_object = Obj [],
      json_object_set_new_nocheck =
        (\<lambda>j k v. case v of None \<Rightarrow> j | Some x \<Rightarrow> Obj (AList.update k x (obj_items j))),
      json_object_get = (\<lambda>r k. case r of None \<Rightarrow> None | Some j \<Rightarrow> map_of (obj_items j) k),
      json_object_items = obj_items,
      json_typeof = jref_type,
      json_integer = (\<lambda>i. Some (Num i)),
      json_string = (\<lambda>s. Some (Str s)),
      json_real = (\<lambda>q. Some (Real q)),
      json_boolean = (\<lambda>b. Some (if b then Tru else Fls)),
      json_integer_value = (\<lambda>j. case j of Num i \<Rightarrow> i | _ \<Rightarrow> 0),
      json_string_value = (\<lambda>j. case j of Str s \<Rightarrow> Some s | _ \<Rightarrow> None),
      json_real_value = (\<lambda>j. case j of Real q \<Rightarrow> q | _ \<Rightarrow> 0),
      json_loads = (\<lambda>s. if s = ''{}'' then Some (Obj []) else None),
      json_dumps = (\<lambda>j fs. Some (jref_text j)),
      json_deep_copy = (\<lambda>r. r)\<rparr>"

lemma jref_contract: "jansson_contract jref_lib"
  by (simp add: jansson_contract_def jref_lib_def)

end
