(* ===== verification/Ostream.thy ===== *)
theory Ostream
  imports Prelude Complex_Main
begin

text \<open>
  What \<open>ostream << double\<close> writes with the default format: the C conversion \<open>%g\<close> with six
  significant digits. The value is a rational number (every finite double is one), rounded to six
  digits half to even as glibc does, printed in fixed notation when its decimal exponent is from
  -4 to 5 and in scientific notation otherwise, in both without trailing zeros. \<open>neg_exp\<close> searches
  the exponent of a number below 1 with fuel 400; the smallest positive double is above
  \<open>10 ^ -324\<close>, so that is enough.
\<close>

definition round_half_even :: "rat \<Rightarrow> int" where
  "round_half_even q =
     (let f = \<lfloor>q\<rfloor>; d = q - of_int f
      in if d < 1 / 2 then f else if d > 1 / 2 then f + 1 else if even f then f else f + 1)"

fun neg_exp :: "nat \<Rightarrow> rat \<Rightarrow> nat" where
  "neg_exp 0 q = 0"
| "neg_exp (Suc fuel) q = (if 1 \<le> q then 0 else Suc (neg_exp fuel (q * 10)))"

definition sci_exp :: "rat \<Rightarrow> int" where
  "sci_exp q =
     (if 1 \<le> q then int (length (dec_string (nat \<lfloor>q\<rfloor>))) - 1 else - int (neg_exp 400 q))"

definition scale10 :: "rat \<Rightarrow> int \<Rightarrow> rat" where
  "scale10 q k = (if 0 \<le> k then q * 10 ^ nat k else q / 10 ^ nat (- k))"

text \<open>Six digits and the exponent of the first of them.\<close>

definition six_digits :: "rat \<Rightarrow> nat \<times> int" where
  "six_digits q =
     (let e = sci_exp q; m = nat (round_half_even (scale10 q (5 - e)))
      in if m = 1000000 then (100000, e + 1) else (m, e))"

definition strip_zeros :: "string \<Rightarrow> string" where
  "strip_zeros s = rev (dropWhile (\<lambda>c. c = CHR ''0'') (rev s))"

definition fraction :: "string \<Rightarrow> string" where
  "fraction s = (if strip_zeros s = [] then [] else CHR ''.'' # strip_zeros s)"

definition exp_string :: "int \<Rightarrow> string" where
  "exp_string e =
     (let ds = dec_string (nat \<bar>e\<bar>)
      in (if e < 0 then ''-'' else ''+'') @ (if length ds < 2 then ''0'' else []) @ ds)"

definition fmt_g :: "rat \<Rightarrow> string" where
  "fmt_g q =
     (if q = 0 then ''0''
      else
        (let (m, e) = six_digits \<bar>q\<bar>; ds = dec_string m
         in (if q < 0 then ''-'' else []) @
            (if 0 \<le> e \<and> e < 6 then take (nat e + 1) ds @ fraction (drop (nat e + 1) ds)
             else if -4 \<le> e \<and> e < 0 then ''0.'' @ replicate (nat (- e) - 1) (CHR ''0'') @ strip_zeros ds
             else take 1 ds @ fraction (drop 1 ds) @ ''e'' @ exp_string e)))"

lemma length_dec_string: "0 < n \<Longrightarrow> 10 ^ (length (dec_string n) - 1) \<le> n \<and> n < 10 ^ length (dec_string n)"
proof (induction n rule: dec_string.induct)
  case (1 n)
  show ?case
  proof (cases "n < 10")
    case True
    then show ?thesis using "1.prems" by (subst (1 2) dec_string.simps) simp
  next
    case False
    let ?l = "length (dec_string (n div 10))"
    have ih: "10 ^ (?l - 1) \<le> n div 10" "n div 10 < 10 ^ ?l"
      using "1.IH" False by auto
    have l: "length (dec_string n) = Suc ?l"
      using False by (subst dec_string.simps) simp
    have p: "10 ^ ?l = 10 ^ (?l - 1) * (10 :: nat)"
      by (cases ?l) (simp_all add: dec_string_nonempty del: length_greater_0_conv)
    have "10 ^ ?l \<le> n"
      using ih(1) unfolding p by (simp only: less_eq_div_iff_mult_less_eq)
    moreover have "n < 10 ^ ?l * 10"
      using ih(2) by (simp only: div_less_iff_less_mult)
    ultimately have "10 ^ ?l \<le> n \<and> n < 10 ^ Suc ?l" by simp
    then show ?thesis by (simp add: l)
  qed
qed

lemma dec_string_length_unique:
  assumes "10 ^ k \<le> n" and "n < 10 ^ Suc k"
  shows "length (dec_string n) = Suc k"
proof -
  have n: "0 < n" using assms(1) by (metis gr0I not_less zero_less_numeral zero_less_power le_zero_eq not_less0)
  note b = length_dec_string [OF n]
  have "(10 :: nat) ^ k < 10 ^ length (dec_string n)" using assms(1) b by linarith
  moreover have "(10 :: nat) ^ (length (dec_string n) - 1) < 10 ^ Suc k" using assms(2) b by linarith
  ultimately have "k < length (dec_string n)" "length (dec_string n) - 1 < Suc k"
    by (meson one_less_numeral_iff power_strict_increasing_iff semiring_norm(76))+
  then show ?thesis by simp
qed

lemma round_half_even_int [simp]: "round_half_even (of_int i) = i"
  by (simp add: round_half_even_def)

lemma round_half_even_nat [simp]: "round_half_even (of_nat n) = int n"
  using round_half_even_int [of "int n"] by simp

text \<open>The digits of a number followed by \<open>j\<close> zeros.\<close>

lemma dec_string_mult: "0 < n \<Longrightarrow> dec_string (n * 10 ^ j) = dec_string n @ replicate j (CHR ''0'')"
proof (induction j)
  case 0
  then show ?case by simp
next
  case (Suc j)
  have "\<not> n * 10 ^ Suc j < 10" using Suc.prems by simp
  then have "dec_string (n * 10 ^ Suc j) = dec_string (n * 10 ^ j) @ [digit_char 0]"
    by (subst dec_string.simps) (simp add: mult.left_commute)
  with Suc show ?case by (simp add: digit_char_simps replicate_append_same)
qed

lemma strip_zeros_replicate [simp]: "strip_zeros (replicate j (CHR ''0'')) = []"
  by (simp add: strip_zeros_def dropWhile_eq_Nil_conv)

lemma fmt_g_small:
  assumes "n < 1000000"
  shows "fmt_g (of_nat n) = dec_string n"
proof (cases "n = 0")
  case True
  then show ?thesis by (simp add: fmt_g_def dec_eval)
next
  case False
  define k where "k = length (dec_string n) - 1"
  have l: "length (dec_string n) = Suc k"
    by (simp add: k_def)
  have b: "10 ^ k \<le> n" "n < 10 ^ Suc k"
    using length_dec_string [of n] False by (simp_all only: l k_def [symmetric] diff_Suc_1)
  have k: "k < 6"
  proof -
    have "(10 :: nat) ^ k < 10 ^ 6" using b(1) assms by simp
    then show ?thesis by (meson one_less_numeral_iff power_strict_increasing_iff semiring_norm(76))
  qed
  have e: "sci_exp (of_nat n) = int k"
    using False l by (simp add: sci_exp_def)
  have "scale10 (of_nat n) (5 - int k) = of_nat (n * 10 ^ (5 - k))"
    using k by (simp add: scale10_def nat_diff_distrib)
  moreover have "n * 10 ^ (5 - k) < 1000000"
  proof -
    have "n * 10 ^ (5 - k) < 10 ^ Suc k * 10 ^ (5 - k)" using b(2) by simp
    also have "\<dots> = 10 ^ (Suc k + (5 - k))" by (simp only: power_add)
    also have "\<dots> = 1000000" using k by simp
    finally show ?thesis .
  qed
  ultimately have "six_digits (of_nat n) = (n * 10 ^ (5 - k), int k)"
    by (simp only: six_digits_def e Let_def round_half_even_nat nat_int) simp
  then show ?thesis
    using False k l by (simp add: fmt_g_def dec_string_mult fraction_def)
qed

lemma fmt_g_large:
  assumes "1000000 \<le> n"
  shows "CHR ''e'' \<in> set (fmt_g (of_nat n))"
proof -
  have "6 < length (dec_string n)"
  proof (rule ccontr)
    assume "\<not> 6 < length (dec_string n)"
    then have "(10 :: nat) ^ length (dec_string n) \<le> 10 ^ 6"
      by (intro power_increasing) simp_all
    then show False using length_dec_string [of n] assms by simp
  qed
  then have "6 \<le> sci_exp (of_nat n)"
    using assms by (simp add: sci_exp_def)
  then have "6 \<le> snd (six_digits (of_nat n))"
    by (simp add: six_digits_def Let_def)
  moreover obtain m e where "six_digits (of_nat n) = (m, e)" by fastforce
  ultimately show ?thesis
    using assms by (simp add: fmt_g_def Let_def)
qed

lemma fmt_g_exact: "fmt_g (of_nat n) = dec_string n \<longleftrightarrow> n < 1000000"
proof
  show "n < 1000000 \<Longrightarrow> fmt_g (of_nat n) = dec_string n" by (rule fmt_g_small)
  have "CHR ''e'' \<notin> set (dec_string n)"
    using dec_string_digits [of n] by (auto simp: isdigit_def)
  then show "fmt_g (of_nat n) = dec_string n \<Longrightarrow> n < 1000000"
    using fmt_g_large [of n] by fastforce
qed

section \<open>The length of the output\<close>

lemma sci_exp_bound:
  assumes "0 < q"
  shows "scale10 q (5 - sci_exp q) < 1000000"
proof (cases "1 \<le> q")
  case True
  define L where "L = length (dec_string (nat \<lfloor>q\<rfloor>))"
  have "0 < nat \<lfloor>q\<rfloor>" using True by simp
  then have "nat \<lfloor>q\<rfloor> < 10 ^ L" "L \<noteq> 0"
    using length_dec_string [of "nat \<lfloor>q\<rfloor>"] by (simp_all add: L_def)
  then have "\<lfloor>q\<rfloor> < 10 ^ L" by (simp add: nat_less_iff)
  then have q: "q < 10 ^ L" by (simp add: floor_less_iff)
  have e: "sci_exp q = int L - 1" using True by (simp add: sci_exp_def L_def)
  show ?thesis
  proof (cases "L \<le> 6")
    case True
    then have "q * 10 ^ (6 - L) < 10 ^ L * 10 ^ (6 - L)" using q by simp
    also have "\<dots> = 10 ^ 6" using True by (simp flip: power_add)
    finally have "q * 10 ^ (6 - L) < 1000000" by simp
    moreover have "5 - sci_exp q = int (6 - L)" using True e by simp
    ultimately show ?thesis by (simp only: scale10_def nat_int) simp
  next
    case False
    have "(10 :: rat) ^ L = 10 ^ 6 * 10 ^ (L - 6)"
      using False by (simp only: power_add [symmetric]) simp
    then have "q < 1000000 * 10 ^ (L - 6)" using q by simp
    moreover have "nat (- (5 - sci_exp q)) = L - 6" "\<not> 0 \<le> 5 - sci_exp q" using False e by auto
    ultimately show ?thesis by (simp only: scale10_def if_False) (simp add: divide_simps)
  qed
next
  case False
  have "q * 10 ^ neg_exp f q < 10" if "q < 10" for f q
    using that by (induction f q rule: neg_exp.induct) (auto simp: algebra_simps)
  from this [of q 400] have "q * 10 ^ neg_exp 400 q < 10" using False by simp
  then have "q * 10 ^ (5 + neg_exp 400 q) < 1000000" by (simp add: power_add)
  moreover have "5 - sci_exp q = int (5 + neg_exp 400 q)" using False by (simp add: sci_exp_def)
  ultimately show ?thesis by (simp only: scale10_def nat_int) simp
qed

lemma round_half_even_le: "q < of_int i \<Longrightarrow> round_half_even q \<le> i"
proof -
  assume "q < of_int i"
  then have "\<lfloor>q\<rfloor> < i" by (simp add: floor_less_iff)
  then show ?thesis by (simp add: round_half_even_def Let_def)
qed

lemma length_dec_string_le:
  assumes "n < 10 ^ k" and "0 < k"
  shows "length (dec_string n) \<le> k"
proof (cases "n = 0")
  case True
  then show ?thesis using assms(2) by (simp add: dec_eval)
next
  case False
  then have "(10 :: nat) ^ (length (dec_string n) - 1) < 10 ^ k"
    using length_dec_string [of n] assms(1) by linarith
  then have "length (dec_string n) - 1 < k"
    by (meson one_less_numeral_iff power_strict_increasing_iff semiring_norm(76))
  then show ?thesis by linarith
qed

lemma six_digits_length:
  assumes "0 < q"
  shows "length (dec_string (fst (six_digits q))) \<le> 6"
proof -
  have "nat (round_half_even (scale10 q (5 - sci_exp q))) \<le> 1000000"
    using round_half_even_le [of "scale10 q (5 - sci_exp q)" 1000000] sci_exp_bound [OF assms] by simp
  then have "fst (six_digits q) < 10 ^ 6"
    by (simp add: six_digits_def Let_def)
  then show ?thesis by (intro length_dec_string_le) simp_all
qed

lemma neg_exp_le: "neg_exp f q \<le> f"
  by (induction f q rule: neg_exp.induct) auto

lemma six_digits_exp:
  assumes "0 < q" and "q < 10 ^ 400"
  shows "\<bar>snd (six_digits q)\<bar> \<le> 400"
proof -
  have "- 400 \<le> sci_exp q \<and> sci_exp q < 400"
  proof (cases "1 \<le> q")
    case True
    have "\<lfloor>q\<rfloor> < 10 ^ 400" using assms(2) by (simp add: floor_less_iff)
    then have "nat \<lfloor>q\<rfloor> < 10 ^ 400" using True by (simp add: nat_less_iff)
    then have "length (dec_string (nat \<lfloor>q\<rfloor>)) \<le> 400" by (intro length_dec_string_le) simp_all
    then show ?thesis using True by (auto simp: sci_exp_def)
  next
    case False
    then show ?thesis using neg_exp_le [of 400 q] by (simp add: sci_exp_def)
  qed
  then show ?thesis by (auto simp: six_digits_def Let_def)
qed

lemma strip_zeros_length: "length (strip_zeros s) \<le> length s"
  unfolding strip_zeros_def length_rev by (rule order.trans [OF length_dropWhile_le]) simp

lemma fmt_g_length:
  assumes "\<bar>q\<bar> < 10 ^ 400"
  shows "length (fmt_g q) \<le> 13"
proof (cases "q = 0")
  case True
  then show ?thesis by (simp add: fmt_g_def)
next
  case False
  obtain m e where s: "six_digits \<bar>q\<bar> = (m, e)" by fastforce
  have m: "length (dec_string m) \<le> 6" using six_digits_length [of "\<bar>q\<bar>"] False s by simp
  have e: "\<bar>e\<bar> \<le> 400" using six_digits_exp [of "\<bar>q\<bar>"] False s assms by simp
  have f: "length (fraction t) \<le> length t + 1" for t
    using strip_zeros_length [of t] by (simp add: fraction_def)
  have "nat \<bar>e\<bar> < 10 ^ 3" using e by simp
  then have x: "length (exp_string e) \<le> 4"
    using length_dec_string_le [of "nat \<bar>e\<bar>" 3] by (auto simp: exp_string_def Let_def)
  show ?thesis
    using False s m f [of "drop (nat e + 1) (dec_string m)"] f [of "drop 1 (dec_string m)"] x
      strip_zeros_length [of "dec_string m"]
    by (auto simp: fmt_g_def Let_def)
qed

end
