(* ===== verification/C_Stdlib.thy ===== *)
theory C_Stdlib
  imports Prelude
begin

text \<open>
  The conversions of the C and C++ standard library that the program's behaviour depends on, as
  glibc and libstdc++ implement them in the C locale: \<open>strtol\<close> (white space, sign, the prefix
  \<open>0x\<close> or \<open>0\<close> when the base is 0, saturation at the limits of a 64-bit \<open>long\<close>), \<open>atoi\<close> (the
  \<open>strtol\<close> value converted to \<open>int\<close>) and the extraction of an \<open>int\<close> from an \<open>istringstream\<close> in
  decimal and in hexadecimal.
\<close>

section \<open>Digits in a base\<close>

definition digit_val :: "char \<Rightarrow> nat option" where
  "digit_val c =
     (if isdigit c then Some (uchar c - 48)
      else if isupper c then Some (uchar c - 55)
      else if islower c then Some (uchar c - 87)
      else None)"

definition is_base_digit :: "nat \<Rightarrow> char \<Rightarrow> bool" where
  "is_base_digit b c = (case digit_val c of None \<Rightarrow> False | Some d \<Rightarrow> d < b)"

definition base_val :: "nat \<Rightarrow> string \<Rightarrow> nat" where
  "base_val b s = foldl (\<lambda>a c. a * b + the (digit_val c)) 0 s"

lemma is_base_digit_10: "is_base_digit 10 c \<longleftrightarrow> isdigit c"
  by (auto simp: is_base_digit_def digit_val_def isdigit_def isupper_def islower_def)

lemma base_val_10:
  assumes "\<forall>c \<in> set s. isdigit c"
  shows "base_val 10 s = digits_val s"
proof -
  have "foldl (\<lambda>a c. a * 10 + the (digit_val c)) n s = foldl (\<lambda>a c. a * 10 + (uchar c - 48)) n s" for n
    using assms by (induction s arbitrary: n) (auto simp: digit_val_def)
  then show ?thesis by (simp add: base_val_def digits_val_def)
qed

section \<open>strtol and atoi\<close>

definition clamp_long :: "int \<Rightarrow> int" where
  "clamp_long i = max (- 9223372036854775808) (min 9223372036854775807 i)"

definition strip_sign :: "string \<Rightarrow> bool \<times> string" where
  "strip_sign s =
     (case s of
        [] \<Rightarrow> (False, [])
      | c # cs \<Rightarrow> if c = CHR ''-'' then (True, cs) else if c = CHR ''+'' then (False, cs) else (False, s))"

text \<open>The base \<open>strtol\<close> reads in and the text of the digits, after white space and sign.\<close>

definition strtol_base :: "nat \<Rightarrow> string \<Rightarrow> nat \<times> string" where
  "strtol_base base s =
     (if base = 0 \<or> base = 16 then
        (case s of
           z # x # d # rest \<Rightarrow>
             if z = CHR ''0'' \<and> (x = CHR ''x'' \<or> x = CHR ''X'') \<and> is_base_digit 16 d
             then (16, d # rest)
             else if base = 16 then (16, s)
             else if z = CHR ''0'' then (8, s)
             else (10, s)
         | z # _ \<Rightarrow> if base = 16 then (16, s) else if z = CHR ''0'' then (8, s) else (10, s)
         | [] \<Rightarrow> (if base = 16 then 16 else 10, s))
      else (base, s))"

text \<open>\<open>None\<close>: no conversion, the end pointer is the start of the string and the value is 0.\<close>

definition strtol :: "nat \<Rightarrow> string \<Rightarrow> int option" where
  "strtol base s =
     (let (neg, t) = strip_sign (dropWhile isspace s);
          (b, u) = strtol_base base t;
          ds = takeWhile (is_base_digit b) u
      in if ds = [] then None
         else Some (clamp_long (if neg then - int (base_val b ds) else int (base_val b ds))))"

definition atoi :: "string \<Rightarrow> int" where
  "atoi s = (case strtol 10 s of None \<Rightarrow> 0 | Some n \<Rightarrow> int_of_long n)"

lemma strtol_base_10 [simp]: "strtol_base 10 s = (10, s)"
  by (simp add: strtol_base_def)

lemma strip_sign_digit: "isdigit c \<Longrightarrow> strip_sign (c # cs) = (False, c # cs)"
  by (auto simp: strip_sign_def isdigit_def uchar_def)

lemma strtol_10_digits:
  assumes "ds \<noteq> []" and "\<forall>c \<in> set ds. isdigit c"
    and "rest = [] \<or> \<not> isdigit (hd rest)"
  shows "strtol 10 (ds @ rest) = Some (clamp_long (int (digits_val ds)))"
proof -
  obtain c cs where ds: "ds = c # cs" using assms(1) by (cases ds) auto
  have c: "isdigit c" using assms(2) ds by simp
  have "dropWhile isspace (ds @ rest) = ds @ rest"
    using c isdigit_not_isspace by (simp add: ds)
  moreover have "strip_sign (ds @ rest) = (False, ds @ rest)"
    using c by (simp add: ds strip_sign_digit)
  moreover have "takeWhile (is_base_digit 10) (ds @ rest) = ds"
    using assms(2,3) by (cases rest) (auto simp: is_base_digit_10)
  ultimately show ?thesis
    using assms(1,2) by (simp add: strtol_def base_val_10)
qed

lemma atoi_dec_string: "int n \<le> 2147483647 \<Longrightarrow> atoi (dec_string n) = int n"
  using strtol_10_digits [of "dec_string n" "[]"] dec_string_digits [of n]
  by (simp add: atoi_def clamp_long_def int_of_long_id in_int32_def)

lemma atoi_empty [simp]: "atoi [] = 0"
  by (simp add: atoi_def strtol_def strip_sign_def)

lemma atoi_range: "in_int32 (atoi s)"
  by (simp add: atoi_def int_of_long_range in_int32_def [of 0] split: option.split)

section \<open>Extraction of an int from an istringstream\<close>

text \<open>
  \<open>is >> value\<close> in decimal: white space is skipped, a sign may precede the digits, characters
  after the digits stay in the stream. No digit, or a value outside \<open>int\<close>, sets \<open>failbit\<close>.
\<close>

definition istream_dec :: "string \<Rightarrow> int option" where
  "istream_dec s =
     (let (neg, t) = strip_sign (dropWhile isspace s);
          ds = takeWhile isdigit t;
          n = (if neg then - int (digits_val ds) else int (digits_val ds))
      in if ds = [] \<or> \<not> in_int32 n then None else Some n)"

text \<open>
  \<open>is >> std::hex >> value\<close>: as above in base 16, and a leading \<open>0x\<close> is skipped (and is then an
  error unless a digit follows it).
\<close>

definition strip_0x :: "string \<Rightarrow> string" where
  "strip_0x s =
     (case s of
        z # x # rest \<Rightarrow> if z = CHR ''0'' \<and> (x = CHR ''x'' \<or> x = CHR ''X'') then rest else s
      | _ \<Rightarrow> s)"

definition istream_hex :: "string \<Rightarrow> int option" where
  "istream_hex s =
     (let (neg, t) = strip_sign (dropWhile isspace s);
          ds = takeWhile (is_base_digit 16) (strip_0x t);
          n = (if neg then - int (base_val 16 ds) else int (base_val 16 ds))
      in if ds = [] \<or> \<not> in_int32 n then None else Some n)"

text \<open>The two hexadecimal digits of a byte, upper case as percent-encoders write them.\<close>

definition hex_char :: "nat \<Rightarrow> char" where
  "hex_char d = (if d < 10 then char_of (48 + d) else char_of (55 + d))"

lemma digit_val_hex_char: "d < 16 \<Longrightarrow> digit_val (hex_char d) = Some d"
  by (auto simp: digit_val_def hex_char_def isdigit_def isupper_def)

lemma hex_char_class:
  "d < 16 \<Longrightarrow> is_base_digit 16 (hex_char d)"
  "d < 16 \<Longrightarrow> \<not> isspace (hex_char d)"
  "d < 16 \<Longrightarrow> strip_sign (hex_char d # s) = (False, hex_char d # s)"
  "d < 16 \<Longrightarrow> hex_char d \<noteq> CHR ''x'' \<and> hex_char d \<noteq> CHR ''X''"
proof -
  show "d < 16 \<Longrightarrow> is_base_digit 16 (hex_char d)"
    by (simp add: is_base_digit_def digit_val_hex_char)
  show "d < 16 \<Longrightarrow> \<not> isspace (hex_char d)"
    by (auto simp: hex_char_def isspace_def)
  have u: "d < 16 \<Longrightarrow> uchar (hex_char d) = (if d < 10 then 48 + d else 55 + d)"
    by (simp add: hex_char_def)
  have ne: "d < 16 \<Longrightarrow> uchar c \<notin> {48..57} \<union> {65..70} \<Longrightarrow> hex_char d \<noteq> c" for c
    using u by (auto split: if_splits)
  show "d < 16 \<Longrightarrow> strip_sign (hex_char d # s) = (False, hex_char d # s)"
    using ne [of "CHR ''-''"] ne [of "CHR ''+''"] by (simp add: strip_sign_def uchar_def)
  show "d < 16 \<Longrightarrow> hex_char d \<noteq> CHR ''x'' \<and> hex_char d \<noteq> CHR ''X''"
    using ne [of "CHR ''x''"] ne [of "CHR ''X''"] by (simp add: uchar_def)
qed

lemma istream_hex_pair:
  assumes "n < 256"
  shows "istream_hex [hex_char (n div 16), hex_char (n mod 16)] = Some (int n)"
proof -
  have h: "n div 16 < 16" "n mod 16 < 16" using assms by auto
  show ?thesis
    using h hex_char_class [OF h(1)] hex_char_class [OF h(2)]
    by (simp add: istream_hex_def strip_0x_def base_val_def digit_val_hex_char in_int32_def)
qed

end
