(* ===== verification/Codec.thy ===== *)
theory Codec
  imports Prelude
begin

text \<open>
  The interface of an encoder and its decoder, as the base-64 routines of \<open>src/wp_base64.cpp\<close> and
  the percent-decoder of \<open>src/request_handler.cpp\<close> offer it: the decoder undoes the encoder. What
  a client may conclude from that law alone is proved here once.
\<close>

locale codec =
  fixes encode :: "'a \<Rightarrow> string"
    and decode :: "string \<Rightarrow> 'a"
  assumes decode_encode: "decode (encode x) = x"
begin

lemma encode_eq_iff: "encode x = encode y \<longleftrightarrow> x = y"
  by (metis decode_encode)

lemma encode_injective: "inj encode"
  by (simp add: inj_def encode_eq_iff)

lemma decode_surjective: "surj decode"
  by (metis decode_encode surjI)

lemma canonical: "encode (decode s) = s \<longleftrightarrow> s \<in> range encode"
  by (metis decode_encode imageE rangeI)

lemma distinct_encode: "distinct (map encode xs) \<longleftrightarrow> distinct xs"
  by (simp add: distinct_map inj_on_subset [OF encode_injective])

end

end
