(* ===== verification/Microtime.thy ===== *)
theory Microtime
  imports Prelude Complex_Main
begin

text \<open>
  \<open>include/microtime.hpp\<close> and \<open>src/microtime.cpp\<close>: times in microseconds as unsigned 64-bit
  integers. The clock is an argument: \<open>gettimeofday\<close> gives the two fields of a \<open>timeval\<close>. A
  double is a rational number, and the rounding of an operation's exact result is the function
  \<open>rnd\<close>, which the definitions take as an argument; \<open>double_exact\<close> is what IEEE 754 promises for
  the integers the program works with.
\<close>

type_synonym microtime_t = "64 word"
type_synonym rounding = "rat \<Rightarrow> rat"

definition double_exact :: "rounding \<Rightarrow> bool" where
  "double_exact rnd \<longleftrightarrow> (\<forall>i :: int. \<bar>i\<bar> \<le> 2 ^ 53 \<longrightarrow> rnd (of_int i) = of_int i)"

lemma double_exactD: "double_exact rnd \<Longrightarrow> \<bar>i\<bar> \<le> 2 ^ 53 \<Longrightarrow> rnd (of_int i) = of_int i"
  by (simp add: double_exact_def)

lemma double_exact_id: "double_exact id"
  by (simp add: double_exact_def)

record timeval =
  tv_sec :: int
  tv_usec :: int

definition now :: "timeval \<Rightarrow> microtime_t" where
  "now tv = 1000000 * word_of_int (tv_sec tv) + word_of_int (tv_usec tv)"

definition nowplus :: "timeval \<Rightarrow> int \<Rightarrow> microtime_t" where
  "nowplus tv secs =
     1000000 * word_of_int (tv_sec tv) + word_of_int (tv_usec tv) + word_of_int secs"

definition diff :: "microtime_t \<Rightarrow> microtime_t \<Rightarrow> microtime_t" where
  "diff t1 t2 = t2 - t1"

definition since :: "timeval \<Rightarrow> microtime_t \<Rightarrow> microtime_t" where
  "since tv t = diff t (now tv)"

definition seconds :: "rounding \<Rightarrow> microtime_t \<Rightarrow> rat" where
  "seconds rnd t = rnd (rnd (of_nat (unat t)) / 1000000)"

definition seconds_since :: "rounding \<Rightarrow> timeval \<Rightarrow> microtime_t \<Rightarrow> rat" where
  "seconds_since rnd tv t = seconds rnd (since tv t)"

definition microseconds_since :: "rounding \<Rightarrow> timeval \<Rightarrow> microtime_t \<Rightarrow> rat" where
  "microseconds_since rnd tv t = rnd (of_nat (unat (since tv t)))"

text \<open>The delay loops of \<open>microsleep\<close>: the quotients are discarded. \<open>(int) (10*t)\<close> is undefined out of range.\<close>

function microsleep_inner :: "int \<Rightarrow> int \<Rightarrow> unit outcome" where
  "microsleep_inner k j =
     (if \<not> in_int32 (k + 5) then Inl Signed_overflow
      else if j < k + 5 then (if j + 1 = 0 then Inl Division_by_zero else microsleep_inner k (j + 1))
      else Inr ())"
  by pat_completeness auto
termination by (relation "measure (\<lambda>(k, j). nat (k + 5 - j))") auto

function microsleep_outer :: "int \<Rightarrow> int \<Rightarrow> unit outcome" where
  "microsleep_outer n k =
     (if k < n then (case microsleep_inner k k of Inl e \<Rightarrow> Inl e | Inr u \<Rightarrow> microsleep_outer n (k + 1))
      else Inr ())"
  by pat_completeness auto
termination by (relation "measure (\<lambda>(n, k). nat (n - k))") auto

declare microsleep_inner.simps [simp del] microsleep_outer.simps [simp del]

definition microsleep :: "rounding \<Rightarrow> rat \<Rightarrow> unit outcome" where
  "microsleep rnd t =
     (let x = rnd (10 * t); n = (if 0 \<le> x then \<lfloor>x\<rfloor> else \<lceil>x\<rceil>)
      in if \<not> in_int32 n then Inl Signed_overflow else microsleep_outer n 0)"

lemma microsleep_inner_returns:
  "0 \<le> k \<Longrightarrow> k \<le> 2147483642 \<Longrightarrow> k \<le> j \<Longrightarrow> microsleep_inner k j = Inr ()"
proof (induction k j rule: microsleep_inner.induct)
  case (1 k j)
  then show ?case by (subst microsleep_inner.simps) (simp add: in_int32_def)
qed

lemma microsleep_outer_returns:
  "0 \<le> k \<Longrightarrow> n \<le> 2147483643 \<Longrightarrow> microsleep_outer n k = Inr ()"
proof (induction n k rule: microsleep_outer.induct)
  case (1 n k)
  then show ?case by (subst microsleep_outer.simps) (simp add: microsleep_inner_returns)
qed

text \<open>\<open>microsleep\<close> returns, and divides by zero for no argument; it overflows for a few large ones.\<close>

lemma microsleep_returns:
  assumes "0 \<le> rnd (10 * t)" and "rnd (10 * t) < 2147483644"
  shows "microsleep rnd t = Inr ()"
proof -
  have "\<lfloor>rnd (10 * t)\<rfloor> \<le> 2147483643" "0 \<le> \<lfloor>rnd (10 * t)\<rfloor>"
    using assms by (simp_all add: floor_le_iff)
  then show ?thesis
    using assms(1) by (simp add: microsleep_def in_int32_def microsleep_outer_returns)
qed

text \<open>A time of the system clock: what \<open>gettimeofday\<close> returns before the year 292000.\<close>

definition clock_time :: "timeval \<Rightarrow> bool" where
  "clock_time tv \<longleftrightarrow> 0 \<le> tv_sec tv \<and> tv_sec tv < 9000000000000 \<and> 0 \<le> tv_usec tv \<and> tv_usec tv < 1000000"

definition usecs :: "timeval \<Rightarrow> nat" where
  "usecs tv = nat (tv_sec tv * 1000000 + tv_usec tv)"

lemma unat_now:
  assumes "clock_time tv"
  shows "unat (now tv) = usecs tv"
proof -
  have "now tv = word_of_int (tv_sec tv * 1000000 + tv_usec tv)"
    by (simp add: now_def)
  moreover have "0 \<le> tv_sec tv * 1000000 + tv_usec tv" "tv_sec tv * 1000000 + tv_usec tv < 2 ^ 64"
    using assms by (auto simp: clock_time_def)
  ultimately show ?thesis
    by (simp add: usecs_def unat_eq_nat_uint uint_word_of_int del: of_int_add of_int_mult)
qed

text \<open>
  On a clock that does not run backwards the difference of two readings is the elapsed number
  of microseconds, without wrap-around; on one that was set back by \<open>d > 0\<close> it wraps to
  \<open>2 ^ 64 - d\<close>.
\<close>

theorem since_elapsed:
  assumes "clock_time t0" and "clock_time t1"
  shows "unat (since t1 (now t0)) =
    (if usecs t0 \<le> usecs t1 then usecs t1 - usecs t0 else 2 ^ 64 - (usecs t0 - usecs t1))"
proof -
  have "unat (now t0 :: 64 word) < 2 ^ 64"
    using unsigned_less [of "now t0", where ?'a = nat] by simp
  then show ?thesis
    using unat_now [OF assms(1)] unat_now [OF assms(2)]
    by (simp add: since_def diff_def unat_sub_if' word_le_nat_alt) arith
qed

lemma since_elapsed_witness:
  "unat (since \<lparr>tv_sec = 1438752000, tv_usec = 250\<rparr> (now \<lparr>tv_sec = 1438751999, tv_usec = 999750\<rparr>)) = 500"
  using since_elapsed [of "\<lparr>tv_sec = 1438751999, tv_usec = 999750\<rparr>" "\<lparr>tv_sec = 1438752000, tv_usec = 250\<rparr>"]
  by (simp add: clock_time_def usecs_def)

text \<open>
  \<open>nowplus\<close> adds its argument, named a number of seconds, to the time as a number of
  microseconds: the result is that many microseconds ahead of \<open>now\<close>.
\<close>

theorem nowplus_microseconds: "diff (now tv) (nowplus tv secs) = word_of_int secs"
  by (simp add: diff_def now_def nowplus_def)

end
