(* ===== verification/Util.thy ===== *)
theory Util
  imports C_Stdlib Codec Microtime "HOL-Library.Signed_Division"
begin

text \<open>
  \<open>src/util.cpp\<close>: the string, number and container helpers. A \<open>char *\<close> argument is the text
  before its terminating zero. \<open>str_split\<close> and the digit loop of \<open>ConvertBase\<close> need not end, so
  they are partial functions whose value is \<open>None\<close> when the code does not return. Signed
  overflow and division by zero are errors. The functions that only read the clock, write the
  log or list files are not modelled.
\<close>

section \<open>Characters\<close>

fun hangul_loop :: "bool \<Rightarrow> string \<Rightarrow> bool" where
  "hangul_loop hangul [] = hangul"
| "hangul_loop hangul (c # cs) = hangul_loop (if uchar c < 128 then False else hangul) cs"

definition isHangul :: "string \<Rightarrow> bool" where
  "isHangul s = hangul_loop True s"

lemma isHangul_all: "isHangul s \<longleftrightarrow> (\<forall>c \<in> set s. 128 \<le> uchar c)"
proof -
  have "hangul_loop h s \<longleftrightarrow> h \<and> (\<forall>c \<in> set s. 128 \<le> uchar c)" for h
    by (induction s arbitrary: h) auto
  then show ?thesis by (simp add: isHangul_def)
qed

fun any_char :: "char \<Rightarrow> string \<Rightarrow> bool" where
  "any_char c [] = False"
| "any_char c (d # ds) = (if c = d then True else any_char c ds)"

fun RemoveChars :: "string \<Rightarrow> string \<Rightarrow> string" where
  "RemoveChars [] chars = []"
| "RemoveChars (c # cs) chars =
     (if \<not> any_char c chars then c # RemoveChars cs chars else RemoveChars cs chars)"

lemma any_char_iff [simp]: "any_char c ds \<longleftrightarrow> c \<in> set ds"
  by (induction ds) auto

lemma RemoveChars_filter: "RemoveChars s chars = filter (\<lambda>c. c \<notin> set chars) s"
  by (induction s) auto

section \<open>Percent decoding\<close>

text \<open>
  The flag is the function's result, the string the content of the output argument when it
  returns: after an error that is what was decoded so far.
\<close>

fun url_loop :: "string \<Rightarrow> string \<Rightarrow> bool \<times> string" where
  "url_loop out [] = (True, out)"
| "url_loop out (c # cs) =
     (if c = CHR ''%'' then
        (if 2 \<le> length cs then
           (case istream_hex (take 2 cs) of
              Some v \<Rightarrow> url_loop (out @ [char_of_int v]) (drop 2 cs)
            | None \<Rightarrow> (False, out))
         else (False, out))
      else if c = CHR ''+'' then url_loop (out @ '' '') cs
      else url_loop (out @ [c]) cs)"

definition url_decode :: "string \<Rightarrow> bool \<times> string" where
  "url_decode s = url_loop [] s"

text \<open>A percent-encoder: letters and digits stay, every other byte becomes \<open>%XY\<close>.\<close>

definition enc_char :: "char \<Rightarrow> string" where
  "enc_char c =
     (if isalnum c then [c] else [CHR ''%'', hex_char (uchar c div 16), hex_char (uchar c mod 16)])"

definition url_encode :: "string \<Rightarrow> string" where
  "url_encode s = concat (map enc_char s)"

lemma url_loop_enc_char: "url_loop out (enc_char c @ s) = url_loop (out @ [c]) s"
proof (cases "isalnum c")
  case True
  then have "c \<noteq> CHR ''%''" "c \<noteq> CHR ''+''"
    by (auto simp: isalnum_def isalpha_def isupper_def islower_def isdigit_def)
  with True show ?thesis by (simp add: enc_char_def)
next
  case False
  then show ?thesis
    using istream_hex_pair [OF uchar_less, of c] by (simp add: enc_char_def numeral_2_eq_2)
qed

lemma url_loop_encode: "url_loop out (url_encode s @ t) = url_loop (out @ s) t"
  by (induction s arbitrary: out) (simp_all add: url_encode_def url_loop_enc_char)

lemma url_loop_plain:
  "\<forall>c \<in> set s. c \<noteq> CHR ''%'' \<and> c \<noteq> CHR ''+'' \<Longrightarrow> url_loop out (s @ t) = url_loop (out @ s) t"
  by (induction s arbitrary: out) auto

lemma url_loop_length: "length (snd (url_loop out s)) \<le> length out + length s"
  by (induction out s rule: url_loop.induct) (force split: option.splits)+

interpretation url: codec url_encode "snd \<circ> url_decode"
  using url_loop_encode [of "[]" _ "[]"] by unfold_locales (simp add: url_decode_def)

section \<open>Numbers\<close>

definition string2int :: "string \<Rightarrow> int" where
  "string2int s = (case istream_dec s of None \<Rightarrow> 0 | Some i \<Rightarrow> i)"

fun atou_loop :: "32 word \<Rightarrow> string \<Rightarrow> 32 word" where
  "atou_loop val [] = val"
| "atou_loop val (c # cs) =
     atou_loop (push_bit 1 val + push_bit 3 val + word_of_int (schar c) - 48) cs"

definition fast_atou :: "string option \<Rightarrow> 32 word" where
  "fast_atou str = (case str of None \<Rightarrow> 0 | Some s \<Rightarrow> atou_loop 0 s)"

definition symbols :: string where
  "symbols = ''0123456789ABCDEFGHIJKLMNoPQRSTUVWXYZ''"

definition MAX_BASE :: int where
  "MAX_BASE = 36"

fun index_loop :: "int \<Rightarrow> string \<Rightarrow> char \<Rightarrow> int" where
  "index_loop index [] c = index"
| "index_loop index (d # ds) c = (if d = c then index else index_loop (index + 1) ds c)"

definition GetIndex :: "string \<Rightarrow> char \<Rightarrow> int" where
  "GetIndex s c = index_loop 0 s c"

fun btd_loop :: "int \<Rightarrow> int \<Rightarrow> int \<Rightarrow> string \<Rightarrow> int outcome" where
  "btd_loop base pv tot [] = Inr tot"
| "btd_loop base pv tot (c # cs) =
     (let t = tot + GetIndex symbols c * pv
      in if in_int32 (GetIndex symbols c * pv) \<and> in_int32 t then btd_loop base (pv sdiv base) t cs
         else Inl Signed_overflow)"

text \<open>
  \<open>(int) pow(base, NumLength - 1)\<close>: the power of the empty number is a fraction that truncates to
  0; one that does not fit in \<open>int\<close> is undefined behaviour.
\<close>

definition BaseToDec :: "string \<Rightarrow> int \<Rightarrow> int outcome" where
  "BaseToDec number base =
     (if base < 2 \<or> base > MAX_BASE then Inr 0
      else if number = [] then btd_loop base 0 0 number
      else let pv = base ^ (length number - 1)
           in if in_int32 pv then btd_loop base pv 0 number else Inl Signed_overflow)"

text \<open>The conversion of a double to \<open>long\<close>.\<close>

definition trunc_long :: "rat \<Rightarrow> int outcome" where
  "trunc_long q =
     (let i = (if 0 \<le> q then \<lfloor>q\<rfloor> else \<lceil>q\<rceil>)
      in if - 9223372036854775808 \<le> i \<and> i \<le> 9223372036854775807 then Inr i else Inl Signed_overflow)"

text \<open>The digits from the last to the first; \<open>None\<close> is the early \<open>return 0\<close>.\<close>

fun cb_total :: "rounding \<Rightarrow> int \<Rightarrow> nat \<Rightarrow> int \<Rightarrow> string \<Rightarrow> int option outcome" where
  "cb_total rnd base i tot [] = Inr (Some tot)"
| "cb_total rnd base i tot (c # cs) =
     (if isalnum c then
        (let value = (if isdigit c then schar c - 48 else schar (tolower c) - 97 + 10)
         in case trunc_long (rnd (rnd (of_int tot) + rnd (of_int value * rnd (of_int base ^ i)))) of
              Inl e \<Rightarrow> Inl e
            | Inr tot' \<Rightarrow> cb_total rnd base (i + 1) tot' cs)
      else Inr None)"

partial_function (option) cb_digits :: "int \<Rightarrow> int \<Rightarrow> string \<Rightarrow> string outcome option" where
  "cb_digits base tot temp =
     (if tot = 0 then Some (Inr temp)
      else if base = 0 then Some (Inl Division_by_zero)
      else (let value = tot smod base
            in cb_digits base (tot sdiv base)
                 (temp @ [char_of_int (if value < 10 then value + 48 else value - 10 + 97)])))"

definition ConvertBase :: "rounding \<Rightarrow> string \<Rightarrow> int \<Rightarrow> int \<Rightarrow> int outcome option" where
  "ConvertBase rnd number currentBase targetBase =
     (case cb_total rnd currentBase 0 0 (rev number) of
        Inl e \<Rightarrow> Some (Inl e)
      | Inr None \<Rightarrow> Some (Inr 0)
      | Inr (Some tot) \<Rightarrow>
          (case cb_digits targetBase tot [] of
             None \<Rightarrow> None
           | Some (Inl e) \<Rightarrow> Some (Inl e)
           | Some (Inr temp) \<Rightarrow> Some (Inr (string2int (rev temp)))))"

section \<open>Containers\<close>

definition map_get :: "(string \<rightharpoonup> string) \<Rightarrow> string \<Rightarrow> string \<Rightarrow> string" where
  "map_get m key d = (case m key of Some v \<Rightarrow> v | None \<Rightarrow> d)"

partial_function (option) split_loop :: "string \<Rightarrow> string \<Rightarrow> string list \<Rightarrow> nat \<Rightarrow> string list option" where
  "split_loop str delimiter tokens lastPos =
     (case str_find str delimiter lastPos of
        Some pos \<Rightarrow>
          split_loop str delimiter (tokens @ [substr str lastPos (pos - lastPos)])
            (pos + length delimiter)
      | None \<Rightarrow> Some (tokens @ [substr str lastPos (length str - lastPos)]))"

definition str_split :: "string \<Rightarrow> string \<Rightarrow> string list option" where
  "str_split str delimiter = split_loop str delimiter [] 0"

fun unique_loop :: "string list \<Rightarrow> string list \<Rightarrow> string list" where
  "unique_loop result [] = result"
| "unique_loop result (x # xs) =
     (if x \<notin> set result then unique_loop (result @ [x]) xs else unique_loop result xs)"

definition vector_unique_list :: "string list \<Rightarrow> string list" where
  "vector_unique_list input = unique_loop [] input"

section \<open>Properties\<close>

lemma push_bits_10: "push_bit 1 v + push_bit 3 v = 10 * (v :: 32 word)"
  by (simp only: push_bit_eq_mult [of 1 v] push_bit_eq_mult [of 3 v]) simp

lemma atou_loop_digits:
  "\<forall>c \<in> set s. isdigit c \<Longrightarrow>
     atou_loop (of_nat n) s = of_nat (foldl (\<lambda>a c. a * 10 + (uchar c - 48)) n s)"
proof (induction s arbitrary: n)
  case Nil
  show ?case by simp
next
  case (Cons c cs)
  then have c: "48 \<le> uchar c" "uchar c \<le> 57" by (simp_all add: isdigit_def)
  then have "(word_of_int (schar c) - 48 :: 32 word) = of_nat (uchar c - 48)"
    by (simp add: schar_def of_nat_diff)
  then have step: "push_bit 1 (of_nat n) + push_bit 3 (of_nat n) + word_of_int (schar c) - 48 =
      (of_nat (n * 10 + (uchar c - 48)) :: 32 word)"
    by (simp only: push_bits_10 add_diff_eq [symmetric]) simp
  have "atou_loop (of_nat (n * 10 + (uchar c - 48))) cs =
      of_nat (foldl (\<lambda>a c. a * 10 + (uchar c - 48)) (n * 10 + (uchar c - 48)) cs)"
    using Cons.prems by (intro Cons.IH) simp
  then show ?case by (simp only: atou_loop.simps foldl.simps step)
qed

lemma symbols_distinct: "distinct symbols" "length symbols = 36"
  by (simp_all add: symbols_def)

lemma index_loop_nth:
  "distinct s \<Longrightarrow> i < length s \<Longrightarrow> index_loop k s (s ! i) = k + int i"
  by (induction s arbitrary: k i) (auto simp: nth_Cons split: nat.splits)

lemma index_loop_absent: "c \<notin> set s \<Longrightarrow> index_loop k s c = k + int (length s)"
  by (induction s arbitrary: k) auto

lemma symbols_digit_val:
  "list_all (\<lambda>i. digit_val (symbols ! i) = Some i) [0..<36]"
  by (simp add: symbols_def digit_val_def isdigit_def isupper_def islower_def upt_rec)

lemma GetIndex_digit_val:
  assumes "c \<in> set symbols"
  shows "GetIndex symbols c = int (the (digit_val c))"
proof -
  obtain i where "i < 36" "c = symbols ! i"
    using assms symbols_distinct(2) by (metis in_set_conv_nth)
  then show ?thesis
    using index_loop_nth [of symbols i 0] symbols_digit_val symbols_distinct
    by (simp add: GetIndex_def list_all_iff)
qed

text \<open>Positional value with the most significant digit first.\<close>

lemma base_val_Cons: "base_val b (c # cs) = the (digit_val c) * b ^ length cs + base_val b cs"
proof -
  have "foldl (\<lambda>a c. a * b + the (digit_val c)) n cs =
      n * b ^ length cs + foldl (\<lambda>a c. a * b + the (digit_val c)) 0 cs" for n
  proof (induction cs arbitrary: n)
    case Nil
    show ?case by simp
  next
    case (Cons d ds)
    from Cons [of "n * b + the (digit_val d)"] Cons [of "the (digit_val d)"]
    show ?case by (simp add: algebra_simps)
  qed
  from this [of "the (digit_val c)"] show ?thesis by (simp add: base_val_def)
qed

lemma sdiv_power: "0 < b \<Longrightarrow> int b ^ Suc k sdiv int b = int b ^ k"
  by (simp add: signed_divide_int_def sgn_if abs_mult)

lemma btd_loop_value:
  assumes "set s \<subseteq> set symbols" and "0 < b" and "n + base_val b s \<le> 2147483647"
    and "s \<noteq> []"
  shows "btd_loop (int b) (int b ^ (length s - 1)) (int n) s = Inr (int (n + base_val b s))"
  using assms
proof (induction s arbitrary: n)
  case Nil
  then show ?case by simp
next
  case (Cons c cs)
  let ?d = "the (digit_val c) * b ^ length cs"
  have i: "GetIndex symbols c = int (the (digit_val c))"
    using Cons.prems(1) by (simp add: GetIndex_digit_val)
  have v: "base_val b (c # cs) = ?d + base_val b cs" by (rule base_val_Cons)
  have "int (n + ?d) \<le> 2147483647" using Cons.prems(3) unfolding v by linarith
  then have step: "btd_loop (int b) (int b ^ (length (c # cs) - 1)) (int n) (c # cs) =
      btd_loop (int b) (int b ^ length cs sdiv int b) (int (n + ?d)) cs"
    by (simp add: i in_int32_def Let_def order.trans [of "- 2147483648" 0])
  show ?case
  proof (cases cs)
    case Nil
    then show ?thesis using step v by (simp add: base_val_def)
  next
    case (Cons d ds)
    have "int b ^ length cs sdiv int b = int b ^ (length cs - 1)"
      using sdiv_power [OF Cons.prems(2), of "length ds"] by (simp add: Cons)
    then have "btd_loop (int b) (int b ^ (length (c # cs) - 1)) (int n) (c # cs) =
        btd_loop (int b) (int b ^ (length cs - 1)) (int (n + ?d)) cs"
      by (simp only: step)
    also have "\<dots> = Inr (int (n + ?d + base_val b cs))"
      using Cons.prems v by (intro Cons.IH) (simp_all add: Cons)
    finally show ?thesis by (simp only: v add.assoc)
  qed
qed

lemma istream_dec_string: "int n \<le> 2147483647 \<Longrightarrow> istream_dec (dec_string n) = Some (int n)"
proof -
  assume n: "int n \<le> 2147483647"
  obtain c cs where d: "dec_string n = c # cs" by (cases "dec_string n") auto
  then have c: "isdigit c" using dec_string_digits [of n] by simp
  have "dropWhile isspace (dec_string n) = dec_string n"
    using c isdigit_not_isspace by (simp add: d)
  moreover have "strip_sign (dec_string n) = (False, dec_string n)"
    using c by (simp add: d strip_sign_digit)
  moreover have "takeWhile isdigit (dec_string n) = dec_string n"
    using dec_string_digits [of n] by simp
  ultimately show ?thesis using n by (simp add: istream_dec_def in_int32_def Let_def takeWhile_eq_all_conv [THEN iffD2])
qed

fun le_val :: "nat \<Rightarrow> string \<Rightarrow> nat" where
  "le_val b [] = 0"
| "le_val b (c # cs) = the (digit_val c) + b * le_val b cs"

lemma le_val_snoc: "le_val b (s @ [c]) = le_val b s + the (digit_val c) * b ^ length s"
  by (induction s) (simp_all add: algebra_simps)

lemma base_val_le_val: "base_val b s = le_val b (rev s)"
  by (induction s) (simp_all add: base_val_Cons le_val_snoc, simp add: base_val_def)

lemma trunc_long_of_int: "\<bar>i\<bar> \<le> 2 ^ 53 \<Longrightarrow> trunc_long (of_int i) = Inr i"
  by (auto simp: trunc_long_def)

lemma digit_value:
  assumes "isalnum c"
  shows "(if isdigit c then schar c - 48 else schar (tolower c) - 97 + 10) = int (the (digit_val c))"
  using assms
  by (auto simp: isalnum_def isalpha_def digit_val_def schar_def uchar_tolower isdigit_def
      isupper_def islower_def)

lemma cb_total_value:
  assumes "double_exact rnd" and "\<forall>c \<in> set s. isalnum c"
    and "n + b ^ i * le_val b s \<le> 2 ^ 53" and "s \<noteq> [] \<longrightarrow> b ^ (i + length s - 1) \<le> 2 ^ 53"
    and "0 < b"
  shows "cb_total rnd (int b) i (int n) s = Inr (Some (int (n + b ^ i * le_val b s)))"
  using assms(2-4)
proof (induction s arbitrary: i n)
  case Nil
  then show ?case by simp
next
  case (Cons c cs)
  let ?d = "the (digit_val c)"
  have ex: "rnd (of_nat m) = of_nat m" if "m \<le> 2 ^ 53" for m
    using double_exactD [OF assms(1), of "int m"] that by simp
  have e: "n + b ^ i * le_val b (c # cs) = (n + ?d * b ^ i) + b ^ (i + 1) * le_val b cs"
    by (simp add: algebra_simps)
  have s: "n + ?d * b ^ i \<le> 2 ^ 53" using Cons.prems(2) unfolding e by linarith
  have abs: "\<bar>int (n + ?d * b ^ i)\<bar> \<le> 2 ^ 53"
    using s by (simp only: abs_of_nat) (metis of_nat_le_iff of_nat_numeral of_nat_power)
  have p: "b ^ i \<le> 2 ^ 53"
    using Cons.prems(3) power_increasing [of i "i + length cs" b] assms(5) by simp
  have "rnd (rnd (of_nat n) + rnd (of_nat ?d * rnd (of_nat b ^ i))) = of_nat (n + ?d * b ^ i)"
    using ex [of "b ^ i"] ex [of n] ex [of "?d * b ^ i"] ex [of "n + ?d * b ^ i"] s p by simp
  then have "trunc_long (rnd (rnd (of_int (int n)) + rnd (of_int (int ?d) * rnd (of_int (int b) ^ i)))) =
      Inr (int (n + ?d * b ^ i))"
    using trunc_long_of_int [OF abs] by (simp only: of_int_of_nat_eq)
  then have "cb_total rnd (int b) i (int n) (c # cs) =
      cb_total rnd (int b) (i + 1) (int (n + ?d * b ^ i)) cs"
    using Cons.prems(1) digit_value [of c] by (simp only: cb_total.simps Let_def) simp
  also have "\<dots> = Inr (Some (int ((n + ?d * b ^ i) + b ^ (i + 1) * le_val b cs)))"
    using Cons.prems unfolding e by (intro Cons.IH) simp_all
  finally show ?case by (simp only: e)
qed

lemma digit_char_of_int: "d < 10 \<Longrightarrow> char_of_int (int d + 48) = digit_char d"
  by (simp add: char_of_int_def digit_char_def nat_add_distrib nat_mod_distrib add.commute)

lemma cb_digits_10: "0 < n \<Longrightarrow> cb_digits 10 (int n) temp = Some (Inr (temp @ rev (dec_string n)))"
proof (induction n arbitrary: temp rule: dec_string.induct)
  case (1 n)
  have q: "int n smod 10 = int (n mod 10)" "int n sdiv 10 = int (n div 10)"
    by (simp_all add: signed_modulo_int_def signed_divide_int_def sgn_if zdiv_int zmod_int)
  have "cb_digits 10 (int n) temp = cb_digits 10 (int (n div 10)) (temp @ [digit_char (n mod 10)])"
    using "1.prems" q by (subst cb_digits.simps) (simp add: Let_def digit_char_of_int)
  moreover have "cb_digits 10 (int (n div 10)) (temp @ [digit_char (n mod 10)]) =
      Some (Inr (temp @ rev (dec_string n)))"
  proof (cases "n < 10")
    case True
    have "dec_string n = [digit_char n]" using True by (subst dec_string.simps) simp
    with True show ?thesis by (subst cb_digits.simps) simp
  next
    case False
    have "dec_string n = dec_string (n div 10) @ [digit_char (n mod 10)]"
      using False by (subst dec_string.simps) simp
    with False show ?thesis
      using "1.IH" [of "temp @ [digit_char (n mod 10)]"] by simp
  qed
  ultimately show ?case by simp
qed

lemma cb_digits_returns:
  "0 \<le> tot \<Longrightarrow> 2 \<le> base \<Longrightarrow> \<exists>temp'. cb_digits base tot temp = Some (Inr temp')"
proof (induction "nat tot" arbitrary: tot temp rule: less_induct)
  case less
  show ?case
  proof (cases "tot = 0")
    case True
    then show ?thesis by (subst cb_digits.simps) simp
  next
    case False
    have "tot sdiv base = tot div base"
      using less.prems by (simp add: signed_divide_int_def sgn_if)
    moreover have "0 \<le> tot div base" "tot div base < tot"
      using False less.prems by (simp_all add: pos_imp_zdiv_nonneg_iff int_div_less_self)
    ultimately show ?thesis
      using less.hyps [of "tot div base"] less.prems False
      by (subst cb_digits.simps) (simp add: Let_def)
  qed
qed

lemma no_sublist_before:
  assumes "find_from d s k = Some i" and "d \<noteq> []"
  shows "\<not> sublist d (take (i - k) s)"
proof
  assume "sublist d (take (i - k) s)"
  then obtain a b where t: "take (i - k) s = a @ d @ b" by (auto simp: sublist_def)
  have "prefix d (drop (length a) s)"
  proof -
    have "s = (a @ d @ b) @ drop (i - k) s" using t by (metis append_take_drop_id)
    then have "drop (length a) s = d @ b @ drop (i - k) s" by (metis append.assoc append_eq_conv_conj)
    then show ?thesis by simp
  qed
  moreover have "length a < i - k"
    using arg_cong [OF t, of length] assms(2) by (cases d) (auto simp: min_def split: if_splits)
  ultimately show False using find_from_first [OF assms(1)] by blast
qed

lemma split_loop_tokens:
  assumes "d \<noteq> []" and "k \<le> length s"
  shows "\<exists>ts. split_loop s d tokens k = Some (tokens @ ts) \<and> ts \<noteq> [] \<and>
    intercalate d ts = drop k s \<and> list_all (\<lambda>t. \<not> sublist d t) ts"
  using assms(2)
proof (induction "length s - k" arbitrary: k tokens rule: less_induct)
  case less
  show ?case
  proof (cases "str_find s d k")
    case None
    then have "\<not> sublist d (drop k s)"
      using less.prems by (simp add: str_find_def find_from_None)
    with None show ?thesis
      by (subst split_loop.simps) (auto simp: substr_def intro: exI [of _ "[drop k s]"])
  next
    case (Some pos)
    then have f: "find_from d (drop k s) k = Some pos"
      using less.prems by (simp add: str_find_def)
    note fs = find_from_Some [OF f]
    have le: "pos + length d \<le> length s" using fs less.prems by auto
    moreover have "length s - (pos + length d) < length s - k"
      using fs le assms(1) by (cases d) auto
    ultimately obtain ts where ts:
      "split_loop s d (tokens @ [take (pos - k) (drop k s)]) (pos + length d) =
         Some ((tokens @ [take (pos - k) (drop k s)]) @ ts)"
      "ts \<noteq> []" "intercalate d ts = drop (pos + length d) s" "list_all (\<lambda>t. \<not> sublist d t) ts"
      using less.hyps by blast
    have "take (pos - k) (drop k s) @ d @ drop (pos + length d) s = drop k s"
    proof -
      have "drop pos s = d @ drop (pos + length d) s"
        using fs by (metis add.commute append_take_drop_id drop_drop le_add_diff_inverse2)
      moreover have "drop k s = take (pos - k) (drop k s) @ drop pos s"
        using fs by (metis append_take_drop_id drop_drop le_add_diff_inverse2)
      ultimately show ?thesis by simp
    qed
    with Some ts no_sublist_before [OF f assms(1)] show ?thesis
      by (subst split_loop.simps)
        (auto simp: substr_def intercalate_Cons intro!: exI [of _ "take (pos - k) (drop k s) # ts"])
  qed
qed

lemma split_loop_empty_delimiter: "k \<le> length s \<Longrightarrow> split_loop s [] tokens k \<noteq> Some res"
proof -
  assume k: "k \<le> length s"
  show ?thesis
  proof
    assume "split_loop s [] tokens k = Some res"
    then have "[] = ([] :: string) \<longrightarrow> \<not> k \<le> length s"
    proof (rule split_loop.raw_induct [where P = "\<lambda>s d tokens k res. d = [] \<longrightarrow> \<not> k \<le> length s", rotated])
      fix f str d tokens k y
      assume ih: "\<And>str d tokens k y. f str d tokens k = Some y \<Longrightarrow> d = [] \<longrightarrow> \<not> k \<le> length str"
        and eq: "(case str_find str d k of
          None \<Rightarrow> Some (tokens @ [substr str k (length str - k)])
        | Some pos \<Rightarrow> f str d (tokens @ [substr str k (pos - k)]) (pos + length d)) = Some y"
      have "find_from [] (drop k str) k = Some k" by (cases "drop k str") simp_all
      then show "d = [] \<longrightarrow> \<not> k \<le> length str"
        using ih eq by (auto simp: str_find_def)
    qed
    with k show False by simp
  qed
qed

lemma unique_loop_set: "set (unique_loop r xs) = set r \<union> set xs"
  by (induction r xs rule: unique_loop.induct) auto

lemma unique_loop_distinct: "distinct r \<Longrightarrow> distinct (unique_loop r xs)"
  by (induction r xs rule: unique_loop.induct) auto

lemma unique_loop_append: "unique_loop r (xs @ ys) = unique_loop (unique_loop r xs) ys"
  by (induction r xs rule: unique_loop.induct) auto

lemma vector_unique_list_remdups: "vector_unique_list xs = rev (remdups (rev xs))"
proof (induction xs rule: rev_induct)
  case Nil
  show ?case by (simp add: vector_unique_list_def)
next
  case (snoc x xs)
  then show ?case
    by (simp add: vector_unique_list_def unique_loop_append)
qed

text \<open>
  Percent-decoding undoes percent-encoding of any byte string, and no input, well formed or
  not, decodes to a longer string.
\<close>

theorem url_decode_encode:
  "url_decode (url_encode s) = (True, s) \<and> length (snd (url_decode t)) \<le> length t"
  using url_loop_encode [of "[]" s "[]"] url_loop_length [of "[]" t] by (simp add: url_decode_def)

text \<open>
  C34: splitting on a delimiter ends with the tokens that joined by the delimiter give the string
  back and of which none contains the delimiter; on the empty delimiter it never returns.
\<close>

theorem str_split_tokens:
  "if d = [] then str_split s d = None
   else \<exists>ts. str_split s d = Some ts \<and> intercalate d ts = s \<and> list_all (\<lambda>t. \<not> sublist d t) ts"
proof (cases "d = []")
  case True
  then show ?thesis
    using split_loop_empty_delimiter [of 0 s "[]"] by (cases "str_split s []") (auto simp: str_split_def)
next
  case False
  then show ?thesis
    using split_loop_tokens [OF False, of 0 s "[]"] by (auto simp: str_split_def)
qed

text \<open>
  \<open>fast_atou\<close> reads the decimal numeral of every number, modulo \<open>2 ^ 32\<close>, and reads a null
  pointer as 0.
\<close>

theorem fast_atou_dec_string:
  "fast_atou (Some (dec_string n)) = of_nat n \<and> fast_atou None = 0"
  using atou_loop_digits [OF dec_string_digits, of 0 n] digits_val_dec_string [of n]
  by (simp add: fast_atou_def digits_val_def)

text \<open>
  \<open>BaseToDec\<close> computes the positional value of a number whose digits are symbols of the table
  below the base, as long as the value and the weight of the first place fit in \<open>int\<close>.
\<close>

theorem BaseToDec_value:
  assumes "set s \<subseteq> set symbols" and "2 \<le> b" and "b \<le> 36" and "s \<noteq> []"
    and "base_val b s \<le> 2147483647" and "b ^ (length s - 1) \<le> 2147483647"
  shows "BaseToDec s (int b) = Inr (int (base_val b s))"
proof -
  have "int b ^ (length s - 1) \<le> 2147483647"
    using assms(6) by (metis of_nat_le_iff of_nat_numeral of_nat_power)
  moreover have "- 2147483648 \<le> int b ^ (length s - 1)"
    by (rule order.trans [of _ 0]) simp_all
  ultimately show ?thesis
    using assms btd_loop_value [of s b 0] by (simp add: BaseToDec_def MAX_BASE_def in_int32_def)
qed

lemma BaseToDec_value_witness: "BaseToDec ''FF'' 16 = Inr 255"
  using BaseToDec_value [of "''FF''" 16]
  by (simp add: symbols_def base_val_def digit_val_def isdigit_def isupper_def)

text \<open>
  Converting a number of any base from 2 to 36, in letters of either case, to base 10 gives its
  value, when that fits in \<open>int\<close> and the weight of the first place is exact in a double.
\<close>

theorem ConvertBase_to_decimal:
  assumes "double_exact rnd" and "\<forall>c \<in> set s. isalnum c" and "2 \<le> b"
    and "base_val b s \<le> 2147483647" and "s \<noteq> []" and "b ^ (length s - 1) \<le> 2 ^ 53"
  shows "ConvertBase rnd s (int b) 10 = Some (Inr (int (base_val b s)))"
proof -
  let ?n = "base_val b s"
  have "cb_total rnd (int b) 0 (int 0) (rev s) = Inr (Some (int (0 + b ^ 0 * le_val b (rev s))))"
    using assms by (intro cb_total_value) (simp_all add: base_val_le_val)
  then have t: "cb_total rnd (int b) 0 0 (rev s) = Inr (Some (int ?n))"
    by (simp add: base_val_le_val)
  show ?thesis
  proof (cases "?n = 0")
    case True
    then show ?thesis
      using t by (simp add: ConvertBase_def cb_digits.simps string2int_def istream_dec_def strip_sign_def)
  next
    case False
    then show ?thesis
      using t assms(4) cb_digits_10 [of ?n "[]"] istream_dec_string [of ?n]
      by (simp add: ConvertBase_def string2int_def)
  qed
qed

lemma ConvertBase_to_decimal_witness: "ConvertBase id ''ff'' 16 10 = Some (Inr 255)"
  using ConvertBase_to_decimal [OF double_exact_id, of "''ff''" 16]
  by (simp add: base_val_def digit_val_def isdigit_def isupper_def islower_def isalnum_def isalpha_def)

text \<open>
  \<open>vector_unique_list\<close> keeps the first occurrence of every element, in order.
\<close>

theorem vector_unique_list_first:
  "vector_unique_list xs = rev (remdups (rev xs)) \<and> distinct (vector_unique_list xs) \<and>
   set (vector_unique_list xs) = set xs"
  by (simp add: vector_unique_list_remdups)

end
