(* ===== verification/Json_Util.thy ===== *)
theory Json_Util
  imports Jansson Ostream Util
begin

text \<open>
  \<open>include/jsonutil.hpp\<close>: the accessors of the class \<open>WP::JSON\<close>, with the functions
  \<open>intToString\<close> and \<open>fast_atoud\<close> of \<open>src/util.cpp\<close> they rely on. A \<open>json_t *\<close> is an optional value.
  \<open>strtod\<close> is an argument, as are the rounding to double (\<open>rnd\<close>) and to float (\<open>rndf\<close>). A
  \<open>std::string\<close> constructed from a null pointer is the error \<open>Null_string\<close>.
\<close>

definition intToString :: "rat \<Rightarrow> string" where
  "intToString nVal = fmt_g nVal"

definition fast_atoud :: "(string \<Rightarrow> rat) \<Rightarrow> string option \<Rightarrow> rat" where
  "fast_atoud strtod str = (case str of Some s \<Rightarrow> strtod s | None \<Rightarrow> 0)"

definition std_string :: "string option \<Rightarrow> string outcome" where
  "std_string p = (case p of Some s \<Rightarrow> Inr s | None \<Rightarrow> Inl Null_string)"

definition GET_JSON_OBJECT :: "'j jansson \<Rightarrow> 'j option \<Rightarrow> string \<Rightarrow> 'j option" where
  "GET_JSON_OBJECT J obj0 key = json_deep_copy J (json_object_get J obj0 (c_str key))"

definition GET_JSON_OBJECT_NO_COPY :: "'j jansson \<Rightarrow> 'j option \<Rightarrow> string \<Rightarrow> 'j option" where
  "GET_JSON_OBJECT_NO_COPY J obj0 key = json_object_get J obj0 (c_str key)"

definition GET_JSON_INT_VALUE :: "'j jansson \<Rightarrow> 'j option \<Rightarrow> string \<Rightarrow> int" where
  "GET_JSON_INT_VALUE J obj0 key =
     (case json_object_get J obj0 (c_str key) of
        Some obj \<Rightarrow>
          if json_typeof J obj = JSON_STRING then sint (fast_atou (json_string_value J obj))
          else if json_typeof J obj = JSON_INTEGER then int_of_long (json_integer_value J obj)
          else 0
      | None \<Rightarrow> 0)"

definition GET_JSON_BOOLEAN_VALUE :: "'j jansson \<Rightarrow> 'j option \<Rightarrow> string \<Rightarrow> int \<Rightarrow> int" where
  "GET_JSON_BOOLEAN_VALUE J obj0 key d =
     (case json_object_get J obj0 (c_str key) of
        Some obj \<Rightarrow>
          if json_typeof J obj = JSON_TRUE then 1
          else if json_typeof J obj = JSON_FALSE then 0
          else if json_typeof J obj = JSON_INTEGER then int_of_long (json_integer_value J obj)
          else d
      | None \<Rightarrow> d)"

definition GET_JSON_INT_VALUE_DEFAULT :: "'j jansson \<Rightarrow> 'j option \<Rightarrow> string \<Rightarrow> int \<Rightarrow> int" where
  "GET_JSON_INT_VALUE_DEFAULT J obj0 key d =
     (case json_object_get J obj0 (c_str key) of
        Some obj \<Rightarrow>
          if json_typeof J obj = JSON_STRING then sint (fast_atou (json_string_value J obj))
          else if json_typeof J obj = JSON_INTEGER then int_of_long (json_integer_value J obj)
          else d
      | None \<Rightarrow> d)"

definition GET_JSON_REAL_VALUE ::
  "rounding \<Rightarrow> (string \<Rightarrow> rat) \<Rightarrow> 'j jansson \<Rightarrow> 'j option \<Rightarrow> string \<Rightarrow> rat \<Rightarrow> rat" where
  "GET_JSON_REAL_VALUE rnd strtod J obj0 key d =
     (case json_object_get J obj0 (c_str key) of
        Some obj \<Rightarrow>
          if json_typeof J obj = JSON_STRING then fast_atoud strtod (json_string_value J obj)
          else if json_typeof J obj = JSON_INTEGER then rnd (of_int (json_integer_value J obj))
          else if json_typeof J obj = JSON_REAL then json_real_value J obj
          else d
      | None \<Rightarrow> d)"

definition GET_JSON_STRING_VALUE ::
  "rounding \<Rightarrow> 'j jansson \<Rightarrow> 'j option \<Rightarrow> string \<Rightarrow> string outcome" where
  "GET_JSON_STRING_VALUE rnd J obj0 key =
     (case json_object_get J obj0 (c_str key) of
        Some obj \<Rightarrow>
          if json_typeof J obj = JSON_STRING then std_string (json_string_value J obj)
          else if json_typeof J obj = JSON_INTEGER
          then Inr (intToString (rnd (of_int (json_integer_value J obj))))
          else Inr []
      | None \<Rightarrow> Inr [])"

definition GET_JSON_STRING_VALUE_DEF ::
  "rounding \<Rightarrow> 'j jansson \<Rightarrow> 'j option \<Rightarrow> string \<Rightarrow> string \<Rightarrow> string outcome" where
  "GET_JSON_STRING_VALUE_DEF rnd J obj0 key d =
     (case json_object_get J obj0 (c_str key) of
        Some obj \<Rightarrow>
          if json_typeof J obj = JSON_STRING then std_string (json_string_value J obj)
          else if json_typeof J obj = JSON_INTEGER
          then Inr (intToString (rnd (of_int (json_integer_value J obj))))
          else Inr d
      | None \<Rightarrow> Inr d)"

definition GET_JSON_OBJ_INT_VALUE :: "'j jansson \<Rightarrow> 'j option \<Rightarrow> int" where
  "GET_JSON_OBJ_INT_VALUE J p =
     (case p of
        Some obj \<Rightarrow>
          if json_typeof J obj = JSON_STRING then sint (fast_atou (json_string_value J obj))
          else if json_typeof J obj = JSON_INTEGER then int_of_long (json_integer_value J obj)
          else 0
      | None \<Rightarrow> 0)"

definition GET_JSON_OBJ_REAL_VALUE ::
  "rounding \<Rightarrow> rounding \<Rightarrow> (string \<Rightarrow> rat) \<Rightarrow> 'j jansson \<Rightarrow> 'j option \<Rightarrow> rat" where
  "GET_JSON_OBJ_REAL_VALUE rnd rndf strtod J p =
     (case p of
        Some obj \<Rightarrow>
          if json_typeof J obj = JSON_STRING
          then rndf (fast_atoud strtod (json_string_value J obj))
          else if json_typeof J obj = JSON_INTEGER then rndf (of_int (json_integer_value J obj))
          else if json_typeof J obj = JSON_REAL then rndf (json_real_value J obj)
          else 0
      | None \<Rightarrow> 0)"

definition GET_JSON_OBJ_STRING_VALUE :: "rounding \<Rightarrow> 'j jansson \<Rightarrow> 'j option \<Rightarrow> string outcome" where
  "GET_JSON_OBJ_STRING_VALUE rnd J p =
     (case p of
        Some obj \<Rightarrow>
          if json_typeof J obj = JSON_STRING then std_string (json_string_value J obj)
          else if json_typeof J obj = JSON_INTEGER
          then Inr (intToString (rnd (of_int (json_integer_value J obj))))
          else std_string None
      | None \<Rightarrow> std_string None)"

text \<open>The documented behaviour of \<open>json_string_value\<close>: null exactly when the value is no string.\<close>

definition string_values :: "'j jansson \<Rightarrow> bool" where
  "string_values J \<longleftrightarrow> (\<forall>j. json_typeof J j = JSON_STRING \<longrightarrow> json_string_value J j \<noteq> None)"

lemma jref_string_values: "string_values jref_lib"
proof -
  have "jref_type j = JSON_STRING \<Longrightarrow> \<exists>s. j = Str s" for j by (cases j) auto
  then show ?thesis by (fastforce simp: string_values_def jref_lib_def)
qed

lemma std_string_Some [simp]: "std_string (Some s) = Inr s"
  by (simp add: std_string_def)

lemma std_string_None [simp]: "std_string None = Inl Null_string"
  by (simp add: std_string_def)

section \<open>Properties\<close>

text \<open>
  An integer member is rendered by its decimal numeral exactly when it is below a million:
  \<open>intToString\<close> takes a double and prints six significant digits.
\<close>

theorem string_of_integer_member:
  assumes "double_exact rnd" and "int n \<le> 2 ^ 53"
    and "json_object_get J obj0 (c_str key) = Some obj"
    and "json_typeof J obj = JSON_INTEGER" and "json_integer_value J obj = int n"
  shows "GET_JSON_STRING_VALUE rnd J obj0 key = Inr (dec_string n) \<longleftrightarrow> n < 1000000"
proof -
  have "rnd (of_int (int n)) = of_nat n"
    using double_exactD [OF assms(1), of "int n"] assms(2) by simp
  then show ?thesis
    using assms(3-5) fmt_g_exact [of n]
    by (simp add: GET_JSON_STRING_VALUE_def intToString_def)
qed

lemma string_of_integer_member_witness:
  "GET_JSON_STRING_VALUE id jref_lib (Some (Obj [(''ttl'', Num 604785)])) ''ttl'' = Inr ''604785'' \<and>
   GET_JSON_STRING_VALUE id jref_lib (Some (Obj [(''ts'', Num 1438752000)])) ''ts'' \<noteq>
     Inr (dec_string 1438752000)"
  using string_of_integer_member [OF double_exact_id, of 604785 jref_lib "Some (Obj [(''ttl'', Num 604785)])"
      "''ttl''" "Num 604785"]
    string_of_integer_member [OF double_exact_id, of 1438752000 jref_lib
      "Some (Obj [(''ts'', Num 1438752000)])" "''ts''" "Num 1438752000"]
  by (simp add: jref_lib_def c_str_def dec_eval)

text \<open>
  The accessor of a JSON value as a string builds a \<open>std::string\<close> from a null pointer exactly
  when the value is absent or neither string nor integer; the accessors of a member, whatever the
  member is, never do.
\<close>

theorem obj_string_value_null:
  assumes "string_values J"
  shows "(GET_JSON_OBJ_STRING_VALUE rnd J p = Inl Null_string \<longleftrightarrow>
      (case p of None \<Rightarrow> True | Some obj \<Rightarrow> json_typeof J obj \<notin> {JSON_STRING, JSON_INTEGER})) \<and>
    (\<exists>s. GET_JSON_STRING_VALUE rnd J obj0 key = Inr s) \<and>
    (\<exists>s. GET_JSON_STRING_VALUE_DEF rnd J obj0 key d = Inr s)"
proof -
  have s: "\<exists>s. std_string (json_string_value J obj) = Inr s" if "json_typeof J obj = JSON_STRING" for obj
    using that assms by (auto simp: string_values_def std_string_def split: option.split)
  show ?thesis
    by (auto simp: GET_JSON_OBJ_STRING_VALUE_def GET_JSON_STRING_VALUE_def
        GET_JSON_STRING_VALUE_DEF_def split: option.split dest: s)
qed

lemma obj_string_value_null_witness:
  "GET_JSON_OBJ_STRING_VALUE id jref_lib (Some Tru) = Inl Null_string"
  using obj_string_value_null [OF jref_string_values, of id "Some Tru" None "[]" "[]"]
  by (simp add: jref_lib_def)

text \<open>
  A member holding the decimal numeral of a number and a member holding the number itself give
  the same \<open>int\<close>, the number modulo \<open>2 ^ 32\<close> in two's complement.
\<close>

theorem int_member_string_or_number:
  assumes "json_object_get J obj0 (c_str key) = Some a" and "json_typeof J a = JSON_STRING"
    and "json_string_value J a = Some (dec_string n)"
    and "json_object_get J obj0 (c_str key') = Some b" and "json_typeof J b = JSON_INTEGER"
    and "json_integer_value J b = int n"
  shows "GET_JSON_INT_VALUE J obj0 key = GET_JSON_INT_VALUE J obj0 key'"
proof -
  have "sint (word_of_int i :: 32 word) = int_of_long i" for i
    by (simp add: sint_sbintrunc' signed_take_bit_eq_take_bit_shift take_bit_eq_mod int_of_long_def)
  from this [of "int n"] have "sint (of_nat n :: 32 word) = int_of_long (int n)" by simp
  then show ?thesis
    using assms atou_loop_digits [OF dec_string_digits, of 0 n] digits_val_dec_string [of n]
    by (simp add: GET_JSON_INT_VALUE_def fast_atou_def digits_val_def)
qed

lemma int_member_string_or_number_witness:
  "GET_JSON_INT_VALUE jref_lib (Some (Obj [(''a'', Str ''4294967295''), (''b'', Num 4294967295)])) ''a'' = -1"
  using int_member_string_or_number [of jref_lib "Some (Obj [(''a'', Str ''4294967295''), (''b'', Num 4294967295)])"
      "''a''" "Str ''4294967295''" 4294967295 "''b''" "Num 4294967295"]
  by (simp add: jref_lib_def c_str_def dec_eval GET_JSON_INT_VALUE_def int_of_long_def)

end
