(* ===== verification/As_Gzip.thy ===== *)
theory As_Gzip
  imports Prelude "HOL-Library.Word"
begin

text \<open>
  \<open>include/as_gzip.hpp\<close> and \<open>src/as_gzip.cpp\<close>. zlib is a parameter: a record of the functions the
  file calls on a stream of type \<open>'z\<close> and of the three status codes it tests. A call of \<open>inflate\<close> or
  \<open>deflate\<close> gets the capacity of the output buffer and returns a status, the bytes it wrote and the
  next stream. Whether \<open>realloc\<close> of a size succeeds is an argument, too.

  The retry loop of \<open>gzdecode\<close> runs at most twelve times, as \<open>factor\<close> goes from 4 to 16, so it is a
  total function; the block loop of \<open>compress_gzip\<close> ends only if zlib ends it and is a partial one.
\<close>

record 'z zlib =
  Z_OK :: int
  Z_STREAM_END :: int
  Z_BUF_ERROR :: int
  inflateInit2 :: "int \<Rightarrow> int \<times> 'z"
  inflate :: "'z \<Rightarrow> string \<Rightarrow> nat \<Rightarrow> int \<times> string \<times> 'z"
  inflateEnd :: "'z \<Rightarrow> int"
  deflateInit2 :: "int \<Rightarrow> int \<Rightarrow> int \<Rightarrow> string \<Rightarrow> int \<times> 'z"
  deflate :: "'z \<Rightarrow> nat \<Rightarrow> int \<times> string \<times> 'z"

definition MAX_WBITS :: int where
  "MAX_WBITS = 15"

text \<open>The next byte of the input of a stream, -1 for \<open>EOF\<close>, and the rest of the input.\<close>

definition get_byte :: "string \<Rightarrow> int \<times> string" where
  "get_byte input = (case input of [] \<Rightarrow> (-1, []) | c # cs \<Rightarrow> (int (uchar c), cs))"

text \<open>One round of the loop: the status after it and the bytes written.\<close>

definition gz_attempt :: "'z zlib \<Rightarrow> string \<Rightarrow> nat \<Rightarrow> int \<times> string" where
  "gz_attempt Z input capacity =
     (let (st0, z) = inflateInit2 Z (- MAX_WBITS)
      in if st0 = Z_OK Z then
           (let (st, out, z') = inflate Z z input capacity
            in if st \<noteq> Z_STREAM_END Z then (if st = Z_OK Z then Z_BUF_ERROR Z else st, out)
               else (inflateEnd Z z', out))
         else (st0, []))"

text \<open>\<open>None\<close>: a \<open>realloc\<close> failed. The output size is computed in \<open>unsigned long\<close> and handed to zlib
  as an \<open>unsigned int\<close>.\<close>

function gz_loop :: "'z zlib \<Rightarrow> (nat \<Rightarrow> bool) \<Rightarrow> string \<Rightarrow> nat \<Rightarrow> nat \<Rightarrow> (int \<times> string) option" where
  "gz_loop Z realloc input len factor =
     (let size = (len * 2 ^ factor) mod 2 ^ 64
      in if \<not> realloc size then None
         else
           (let (status, out) = gz_attempt Z input (size mod 2 ^ 32)
            in if status = Z_BUF_ERROR Z \<and> factor + 1 < 16
               then gz_loop Z realloc input len (factor + 1)
               else Some (status, out)))"
  by pat_completeness auto
termination
  by (relation "measure (\<lambda>(Z, realloc, input, len, factor). 16 - factor)") auto

declare gz_loop.simps [simp del]

text \<open>
  \<open>data\<close> is the memory the pointer refers to, of which the first \<open>len + 1\<close> bytes are read. The
  result is the decoded text without its terminating zero; its length is the new value of \<open>len\<close>.
\<close>

definition gzdecode :: "'z zlib \<Rightarrow> (nat \<Rightarrow> bool) \<Rightarrow> string \<Rightarrow> nat \<Rightarrow> string option outcome" where
  "gzdecode Z realloc data len =
     (if length data < len + 1 then Inl Out_of_bounds_read
      else
        (case gz_loop Z realloc (take (len + 1) data) len 4 of
           None \<Rightarrow> Inr None
         | Some (status, out) \<Rightarrow>
             if status = Z_OK Z then
               (if realloc (length out + 1) then Inr (Some out) else Inl Null_dereference)
             else Inr None))"

partial_function (option) deflate_loop ::
  "'z zlib \<Rightarrow> 'z \<Rightarrow> nat \<Rightarrow> string \<Rightarrow> (int \<times> string) option" where
  "deflate_loop Z z total_out outstring =
     (let (ret, outbuffer, z') = deflate Z z 32768;
          total_out' = total_out + length outbuffer;
          outstring' =
            (if length outstring < total_out'
             then outstring @ take (total_out' - length outstring) outbuffer else outstring)
      in if ret = Z_OK Z then deflate_loop Z z' total_out' outstring'
         else Some (ret, outstring'))"

definition compress_gzip :: "'z zlib \<Rightarrow> string \<Rightarrow> int \<Rightarrow> string option" where
  "compress_gzip Z str compressionlevel =
     (let (st, z) = deflateInit2 Z compressionlevel (15 + 16) 9 str
      in if st \<noteq> Z_OK Z then Some []
         else
           (case deflate_loop Z z 0 [] of
              None \<Rightarrow> None
            | Some (ret, outstring) \<Rightarrow>
                if ret \<noteq> Z_STREAM_END Z then Some [] else Some outstring))"

section \<open>Properties\<close>

text \<open>
  What zlib documents of raw inflation in one call: given an output buffer that holds the whole
  decompressed data \<open>out\<close> it finishes, given a smaller one it reports that the buffer is full.
\<close>

definition inflates_to :: "'z zlib \<Rightarrow> string \<Rightarrow> string \<Rightarrow> bool" where
  "inflates_to Z input out \<longleftrightarrow>
     Z_OK Z \<noteq> Z_BUF_ERROR Z \<and> Z_STREAM_END Z \<noteq> Z_BUF_ERROR Z \<and> Z_OK Z \<noteq> Z_STREAM_END Z \<and>
     (\<exists>z z1. inflateInit2 Z (- MAX_WBITS) = (Z_OK Z, z) \<and> inflateEnd Z z1 = Z_OK Z \<and>
        (\<forall>cap. if length out \<le> cap then inflate Z z input cap = (Z_STREAM_END Z, out, z1)
               else fst (inflate Z z input cap) = Z_BUF_ERROR Z))"

lemma gz_attempt_inflates:
  assumes "inflates_to Z input out"
  shows "length out \<le> cap \<Longrightarrow> gz_attempt Z input cap = (Z_OK Z, out)"
    and "\<not> length out \<le> cap \<Longrightarrow> fst (gz_attempt Z input cap) = Z_BUF_ERROR Z"
proof -
  obtain z z1 where "inflateInit2 Z (- MAX_WBITS) = (Z_OK Z, z)" "inflateEnd Z z1 = Z_OK Z"
    and i: "\<And>cap. if length out \<le> cap then inflate Z z input cap = (Z_STREAM_END Z, out, z1)
      else fst (inflate Z z input cap) = Z_BUF_ERROR Z"
    using assms by (auto simp: inflates_to_def)
  moreover have "Z_STREAM_END Z \<noteq> Z_BUF_ERROR Z" "Z_OK Z \<noteq> Z_BUF_ERROR Z" "Z_OK Z \<noteq> Z_STREAM_END Z"
    using assms by (auto simp: inflates_to_def)
  ultimately show "length out \<le> cap \<Longrightarrow> gz_attempt Z input cap = (Z_OK Z, out)"
    and "\<not> length out \<le> cap \<Longrightarrow> fst (gz_attempt Z input cap) = Z_BUF_ERROR Z"
    by (cases "inflate Z z input cap"; use i [of cap] in \<open>simp add: gz_attempt_def\<close>)+
qed

lemma gz_loop_inflates:
  assumes "inflates_to Z input out" and "len * 2 ^ 15 < 2 ^ 32" and "factor \<le> 15"
  shows "length out \<le> len * 2 ^ 15 \<Longrightarrow>
      gz_loop Z (\<lambda>_. True) input len factor = Some (Z_OK Z, out)"
    and "\<not> length out \<le> len * 2 ^ 15 \<Longrightarrow>
      \<exists>junk. gz_loop Z (\<lambda>_. True) input len factor = Some (Z_BUF_ERROR Z, junk)"
proof -
  have ne: "Z_OK Z \<noteq> Z_BUF_ERROR Z" using assms(1) by (simp add: inflates_to_def)
  have loop: "gz_loop Z (\<lambda>_. True) input len f =
      (let (status, res) = gz_attempt Z input (len * 2 ^ f)
       in if status = Z_BUF_ERROR Z \<and> f + 1 < 16 then gz_loop Z (\<lambda>_. True) input len (f + 1)
          else Some (status, res))" if "f \<le> 15" for f
  proof -
    have "len * 2 ^ f \<le> len * 2 ^ 15" using that by (intro mult_le_mono2 power_increasing) simp_all
    then have "len * 2 ^ f < 2 ^ 32" using assms(2) by linarith
    then show ?thesis by (subst gz_loop.simps) (simp add: Let_def)
  qed
  have "(length out \<le> len * 2 ^ 15 \<longrightarrow>
        gz_loop Z (\<lambda>_. True) input len factor = Some (Z_OK Z, out)) \<and>
      (\<not> length out \<le> len * 2 ^ 15 \<longrightarrow>
        (\<exists>junk. gz_loop Z (\<lambda>_. True) input len factor = Some (Z_BUF_ERROR Z, junk)))"
    using assms(3)
  proof (induction "15 - factor" arbitrary: factor)
    case 0
    then have f: "factor = 15" by simp
    show ?case
      using gz_attempt_inflates [OF assms(1), of "len * 2 ^ 15"] ne loop [of 15]
      by (cases "gz_attempt Z input (len * 2 ^ 15)") (simp add: f)
  next
    case (Suc k)
    have mono: "len * 2 ^ factor \<le> len * 2 ^ 15"
      using Suc.prems by (intro mult_le_mono2 power_increasing) simp_all
    show ?case
    proof (cases "length out \<le> len * 2 ^ factor")
      case True
      then show ?thesis
        using gz_attempt_inflates(1) [OF assms(1) True] ne loop [OF Suc.prems] order.trans [OF True mono]
        by simp
    next
      case False
      have "fst (gz_attempt Z input (len * 2 ^ factor)) = Z_BUF_ERROR Z"
        using gz_attempt_inflates(2) [OF assms(1) False] .
      moreover have "factor < 15" using Suc.hyps(2) by linarith
      ultimately have "gz_loop Z (\<lambda>_. True) input len factor =
          gz_loop Z (\<lambda>_. True) input len (factor + 1)"
        using loop [OF Suc.prems]
        by (cases "gz_attempt Z input (len * 2 ^ factor)") simp
      with Suc.hyps(1) [of "factor + 1"] Suc.hyps(2) show ?thesis by simp
    qed
  qed
  then show "length out \<le> len * 2 ^ 15 \<Longrightarrow>
      gz_loop Z (\<lambda>_. True) input len factor = Some (Z_OK Z, out)"
    and "\<not> length out \<le> len * 2 ^ 15 \<Longrightarrow>
      \<exists>junk. gz_loop Z (\<lambda>_. True) input len factor = Some (Z_BUF_ERROR Z, junk)"
    by blast+
qed


text \<open>A zlib that inflates everything to the same text.\<close>

definition const_zlib :: "string \<Rightarrow> unit zlib" where
  "const_zlib out =
     \<lparr>Z_OK = 0, Z_STREAM_END = 1, Z_BUF_ERROR = -5,
      inflateInit2 = (\<lambda>w. (0, ())),
      inflate = (\<lambda>z i cap. if length out \<le> cap then (1, out, ()) else (-5, take cap out, ())),
      inflateEnd = (\<lambda>z. 0),
      deflateInit2 = (\<lambda>l w m s. (0, ())),
      deflate = (\<lambda>z cap. (1, out, ()))\<rparr>"

lemma const_zlib_inflates: "inflates_to (const_zlib out) input out"
  by (simp add: inflates_to_def const_zlib_def)


text \<open>The blocks \<open>deflate\<close> produces until it reports a status other than \<open>Z_OK\<close>.\<close>

fun deflate_run :: "'z zlib \<Rightarrow> 'z \<Rightarrow> string list \<Rightarrow> int \<Rightarrow> bool" where
  "deflate_run Z z [] st = False"
| "deflate_run Z z (b # bs) st =
     (case deflate Z z 32768 of (ret, out, z') \<Rightarrow>
        out = b \<and> (if bs = [] then ret = st \<and> st \<noteq> Z_OK Z else ret = Z_OK Z \<and> deflate_run Z z' bs st))"

lemma deflate_loop_run:
  "deflate_run Z z bs st \<Longrightarrow> deflate_loop Z z (length out) out = Some (st, out @ concat bs)"
proof (induction bs arbitrary: z out)
  case Nil
  then show ?case by simp
next
  case (Cons b bs)
  obtain ret o1 z' where d: "deflate Z z 32768 = (ret, o1, z')" by (cases "deflate Z z 32768")
  show ?case
    using Cons.prems Cons.IH [of z' "out @ b"]
    by (subst deflate_loop.simps) (auto simp: d Let_def split: if_splits)
qed

lemma deflate_run_exists:
  fixes left :: "'z \<Rightarrow> nat"
  assumes "\<And>z out z'. deflate Z z 32768 = (Z_OK Z, out, z') \<Longrightarrow> left z' < left z"
  shows "\<exists>bs st. deflate_run Z z bs st"
proof (induction "left z" arbitrary: z rule: less_induct)
  case less
  obtain ret out z' where d: "deflate Z z 32768 = (ret, out, z')" by (cases "deflate Z z 32768")
  show ?case
  proof (cases "ret = Z_OK Z")
    case True
    then obtain bs st where r: "deflate_run Z z' bs st" using less assms d by blast
    then have "bs \<noteq> []" by auto
    then show ?thesis using r d True by (intro exI [of _ "out # bs"] exI [of _ st]) simp
  next
    case False
    then show ?thesis using d by (intro exI [of _ "[out]"] exI [of _ ret]) simp
  qed
qed

text \<open>
  C33: \<open>compress_gzip\<close> returns, whatever it compresses, when each call of \<open>deflate\<close> that asks to be called
  again leaves less to deliver: zlib delivers the compressed data in some number of blocks and a final
  status, and the result is the concatenation of the blocks if the status is the end of the stream,
  and empty if it is an error or the compression cannot be set up.
\<close>

theorem compress_gzip_terminates:
  fixes left :: "'z \<Rightarrow> nat"
  assumes "\<And>z out z'. deflate Z z 32768 = (Z_OK Z, out, z') \<Longrightarrow> left z' < left z"
  shows "\<exists>blocks st. compress_gzip Z str level =
      Some (if fst (deflateInit2 Z level 31 9 str) = Z_OK Z \<and> st = Z_STREAM_END Z then concat blocks else []) \<and>
    deflate_run Z (snd (deflateInit2 Z level 31 9 str)) blocks st"
proof -
  obtain ret z where i: "deflateInit2 Z level 31 9 str = (ret, z)" by fastforce
  obtain bs st where r: "deflate_run Z z bs st" using deflate_run_exists [of Z left z] assms by blast
  then show ?thesis
    using i deflate_loop_run [OF r, of "[]"] by (intro exI [of _ bs] exI [of _ st]) (simp add: compress_gzip_def)
qed

text \<open>A zlib that delivers as many blocks as its state says before the last.\<close>

definition block_zlib :: "nat zlib" where
  "block_zlib =
     \<lparr>Z_OK = 0, Z_STREAM_END = 1, Z_BUF_ERROR = -5,
      inflateInit2 = (\<lambda>w. (0, 0)), inflate = (\<lambda>z i cap. (1, [], 0)), inflateEnd = (\<lambda>z. 0),
      deflateInit2 = (\<lambda>l w m s. (0, length s)),
      deflate = (\<lambda>z cap. if z = 0 then (1, ''.'', 0) else (0, ''x'', z - 1))\<rparr>"

lemma compress_gzip_terminates_witness: "\<exists>bs. compress_gzip block_zlib ''abc'' 9 = Some bs"
proof -
  have law: "deflate block_zlib z 32768 = (Z_OK block_zlib, out, z') \<Longrightarrow> z' < z" for z out z'
    by (simp add: block_zlib_def split: if_splits) linarith
  have "\<exists>blocks st. compress_gzip block_zlib ''abc'' 9 =
      Some (if fst (deflateInit2 block_zlib 9 31 9 ''abc'') = Z_OK block_zlib \<and> st = Z_STREAM_END block_zlib
        then concat blocks else []) \<and>
    deflate_run block_zlib (snd (deflateInit2 block_zlib 9 31 9 ''abc'')) blocks st"
    by (rule compress_gzip_terminates [where left = "\<lambda>z. z"]) (rule law)
  then show ?thesis by blast
qed

end
