(* ===== verification/Base64.thy ===== *)
theory Base64
  imports Codec
begin

text \<open>
  \<open>include/wp_base64.hpp\<close> and \<open>src/wp_base64.cpp\<close>: the base-64 encoder and the two decoders. The
  arrays \<open>charArray4\<close> and \<open>charArray3\<close> hold \<open>unsigned char\<close>s: their cells are \<open>8 word\<close>s, so the
  shifts and sums are computed modulo 256, as the assignments to the cells truncate them; the
  loops keep the part of the array filled so far as a list. \<open>base64DecodeToData\<close> writes through a
  pointer into a buffer of a given size: a write beyond it is an error of the model.

  The lemmas give the arithmetic of one group of three bytes; the properties are the round trips
  of both decoders with the encoder, the memory safety of the second decoder, and the length of
  an encoding.
\<close>

unbundle bit_operations_syntax

section \<open>The alphabet\<close>

definition kBase64String :: string where
  "kBase64String =
     ''ABCDEFGHIJKLMNOPQRSTUVWXYZ'' @ ''abcdefghijklmnopqrstuvwxyz'' @ ''0123456789+/''"

definition byte :: "char \<Rightarrow> 8 word" where
  "byte c = of_nat (uchar c)"

definition unbyte :: "8 word \<Rightarrow> char" where
  "unbyte w = char_of (unat w)"

text \<open>\<open>kBase64String[w]\<close>, and \<open>kBase64String.find(w)\<close> stored in an \<open>unsigned char\<close>: \<open>npos\<close> is 255.\<close>

definition b64_at :: "8 word \<Rightarrow> char" where
  "b64_at w = kBase64String ! unat w"

definition b64_find :: "8 word \<Rightarrow> 8 word" where
  "b64_find w = (case str_find kBase64String [unbyte w] 0 of None \<Rightarrow> 255 | Some i \<Rightarrow> of_nat i)"

definition IsBase64 :: "char \<Rightarrow> bool" where
  "IsBase64 c \<longleftrightarrow> isalnum c \<or> c = CHR ''+'' \<or> c = CHR ''/''"

section \<open>The encoder\<close>

definition encode_group :: "8 word list \<Rightarrow> 8 word list" where
  "encode_group x =
     [drop_bit 2 (x ! 0 AND 0xfc),
      push_bit 4 (x ! 0 AND 0x03) + drop_bit 4 (x ! 1 AND 0xf0),
      push_bit 2 (x ! 1 AND 0x0f) + drop_bit 6 (x ! 2 AND 0xc0),
      x ! 2 AND 0x3f]"

fun encode_loop :: "8 word list \<Rightarrow> string \<Rightarrow> string \<Rightarrow> 8 word list \<times> string" where
  "encode_loop arr [] acc = (arr, acc)"
| "encode_loop arr (c # cs) acc =
     (let arr' = arr @ [byte c]
      in if length arr' = 3 then encode_loop [] cs (acc @ map b64_at (encode_group arr'))
         else encode_loop arr' cs acc)"

text \<open>The last, incomplete group.\<close>

definition encode_tail :: "8 word list \<Rightarrow> string \<Rightarrow> string" where
  "encode_tail arr acc =
     (let i = length arr
      in if i \<noteq> 0 then
           acc @ map b64_at (take (i + 1) (encode_group (arr @ replicate (3 - i) 0))) @
           replicate (3 - i) (CHR ''='')
         else acc)"

definition base64Encode :: "string \<Rightarrow> string" where
  "base64Encode bytes = (let (arr, acc) = encode_loop [] bytes [] in encode_tail arr acc)"

section \<open>The decoder into a string\<close>

definition decode_group :: "8 word list \<Rightarrow> 8 word list" where
  "decode_group x =
     [push_bit 2 (x ! 0) + drop_bit 4 (x ! 1 AND 0x30),
      push_bit 4 (x ! 1 AND 0xf) + drop_bit 2 (x ! 2 AND 0x3c),
      push_bit 6 (x ! 2 AND 0x3) + x ! 3]"

fun decode_loop :: "8 word list \<Rightarrow> string \<Rightarrow> string \<Rightarrow> 8 word list \<times> string" where
  "decode_loop arr [] acc = (arr, acc)"
| "decode_loop arr (c # cs) acc =
     (if c \<noteq> CHR ''='' \<and> IsBase64 c then
        (let arr' = arr @ [byte c]
         in if length arr' = 4
            then decode_loop [] cs (acc @ map unbyte (decode_group (map b64_find arr')))
            else decode_loop arr' cs acc)
      else (arr, acc))"

definition decode_tail :: "8 word list \<Rightarrow> string \<Rightarrow> string" where
  "decode_tail arr acc =
     (let i = length arr
      in if i \<noteq> 0 then
           acc @ map unbyte (take (i - 1)
             (decode_group (map b64_find (arr @ replicate (4 - i) 0))))
         else acc)"

definition base64Decode :: "string \<Rightarrow> string" where
  "base64Decode encoded = (let (arr, acc) = decode_loop [] encoded [] in decode_tail arr acc)"

section \<open>The decoder into a buffer\<close>

definition b64table :: "char \<Rightarrow> int" where
  "b64table c =
     (if isdigit c then 52 + int (uchar c) - 48
      else if isupper c then int (uchar c) - 65
      else if islower c then 26 + int (uchar c) - 97
      else if c = CHR ''+'' then 62
      else if c = CHR ''/'' then 63
      else -1)"

text \<open>\<open>*pd = b; ++pd\<close>: the bytes written so far are \<open>out\<close>, so \<open>pd\<close> is at offset \<open>length out\<close>.\<close>

definition poke :: "nat \<Rightarrow> string \<Rightarrow> 32 word \<Rightarrow> string outcome" where
  "poke sz out b =
     (if length out < sz then Inr (out @ [unbyte (ucast b)]) else Inl Out_of_bounds_write)"

text \<open>Writes of \<open>bs\<close> in order, each followed by the test \<open>if (++pd >= pend) return\<close>; the flag says
  that the function returned.\<close>

fun poke_all :: "nat \<Rightarrow> string \<Rightarrow> 32 word list \<Rightarrow> (bool \<times> string) outcome" where
  "poke_all sz out [] = Inr (False, out)"
| "poke_all sz out (b # bs) =
     (case poke sz out b of
        Inl e \<Rightarrow> Inl e
      | Inr out' \<Rightarrow> if length out' \<ge> sz then Inr (True, out') else poke_all sz out' bs)"

fun data_loop :: "nat \<Rightarrow> string \<Rightarrow> 32 word \<Rightarrow> nat \<Rightarrow> string \<Rightarrow> string outcome" where
  "data_loop sz out a bc [] =
     (if bc \<ge> 8 then
        (case poke_all sz out [drop_bit 16 a] of
           Inl e \<Rightarrow> Inl e
         | Inr (ret, out') \<Rightarrow>
             if ret then Inr out'
             else if bc \<ge> 16 then poke sz out' (drop_bit 8 a)
             else Inr out')
      else Inr out)"
| "data_loop sz out a bc (c # cs) =
     (let n = b64table c
      in if n = -1 then data_loop sz out a bc cs
         else
           (let a' = a OR push_bit (18 - bc) (word_of_int n AND 63);
                bc' = bc + 6
            in if bc' > 18 then
                 (case poke_all sz out [drop_bit 16 a', drop_bit 8 a', a'] of
                    Inl e \<Rightarrow> Inl e
                  | Inr (ret, out') \<Rightarrow> if ret then Inr out' else data_loop sz out' 0 0 cs)
               else data_loop sz out a' bc' cs))"

text \<open>The bytes written from the start of the destination; the function returns their number.\<close>

definition base64DecodeToData :: "string \<Rightarrow> nat \<Rightarrow> string outcome" where
  "base64DecodeToData source destinationSize =
     (if destinationSize = 0 then Inr [] else data_loop destinationSize [] 0 0 source)"

section \<open>Arithmetic of a group\<close>

lemma unat8: "unat (w :: 8 word) < 256"
  using unsigned_less [of w, where ?'a = nat] by simp

lemma unat_byte [simp]: "unat (byte c) = uchar c"
  using uchar_less [of c] by (simp add: byte_def unat_of_nat)

lemma unbyte_byte [simp]: "unbyte (byte c) = c"
  by (simp add: unbyte_def)

lemma uchar_unbyte [simp]: "uchar (unbyte w) = unat w"
  using unat8 [of w] by (simp add: unbyte_def)

lemma byte_unbyte [simp]: "byte (unbyte w) = w"
  by (simp add: word_unat_eq_iff)

lemma and_masks:
  fixes w :: "8 word"
  shows "unat (w AND 0x03) = unat w mod 4" "unat (w AND 0x0f) = unat w mod 16"
    "unat (w AND 0x3f) = unat w mod 64" "unat (w AND 0xf) = unat w mod 16"
proof -
  have m: "unat (w AND mask n) = unat w mod 2 ^ n" for n
    by (simp only: take_bit_eq_mask [symmetric] unsigned_take_bit_eq take_bit_eq_mod [of n "unat w"])
  have "(0x03 :: 8 word) = mask 2" "(0x0f :: 8 word) = mask 4" "(0x3f :: 8 word) = mask 6"
    by (simp_all add: mask_eq_exp_minus_1)
  then show "unat (w AND 0x03) = unat w mod 4" "unat (w AND 0x0f) = unat w mod 16"
    "unat (w AND 0x3f) = unat w mod 64" "unat (w AND 0xf) = unat w mod 16"
    using m [of 2] m [of 4] m [of 6] by simp_all
qed

lemma drop_bit_shifted_mask:
  fixes w :: "8 word"
  shows "drop_bit k (w AND push_bit k (mask m)) = drop_bit k w AND mask m"
  by (rule bit_word_eqI) (auto simp: bit_simps dest: bit_imp_le_length)

lemma drop_bit_full_mask:
  fixes w :: "8 word"
  shows "m = 8 - k \<Longrightarrow> drop_bit k w AND mask m = drop_bit k w"
  by (rule bit_word_eqI) (auto simp: bit_simps dest: bit_imp_le_length)

lemma shift_masks:
  fixes w :: "8 word"
  shows "drop_bit 2 (w AND 0xfc) = drop_bit 2 w" "drop_bit 4 (w AND 0xf0) = drop_bit 4 w"
    "drop_bit 6 (w AND 0xc0) = drop_bit 6 w" "drop_bit 4 (w AND 0x30) = drop_bit 4 w AND 0x03"
    "drop_bit 2 (w AND 0x3c) = drop_bit 2 w AND 0x0f"
proof -
  have c: "(0xfc :: 8 word) = push_bit 2 (mask 6)" "(0xf0 :: 8 word) = push_bit 4 (mask 4)"
    "(0xc0 :: 8 word) = push_bit 6 (mask 2)" "(0x30 :: 8 word) = push_bit 4 (mask 2)"
    "(0x3c :: 8 word) = push_bit 2 (mask 4)" "(0x03 :: 8 word) = mask 2" "(0x0f :: 8 word) = mask 4"
    by (simp_all add: mask_eq_exp_minus_1)
  show "drop_bit 2 (w AND 0xfc) = drop_bit 2 w" "drop_bit 4 (w AND 0xf0) = drop_bit 4 w"
    "drop_bit 6 (w AND 0xc0) = drop_bit 6 w" "drop_bit 4 (w AND 0x30) = drop_bit 4 w AND 0x03"
    "drop_bit 2 (w AND 0x3c) = drop_bit 2 w AND 0x0f"
    by (simp_all only: c drop_bit_shifted_mask drop_bit_full_mask)
qed

text \<open>The cells of a group as natural numbers.\<close>

lemma unat_push_add:
  fixes x y :: "8 word"
  shows "unat (push_bit k x + y) = (unat x * 2 ^ k + unat y) mod 256"
proof -
  have "unat (push_bit k x) = unat x * 2 ^ k mod 256"
    by (simp only: unsigned_push_bit_eq push_bit_eq_mult [of k "unat x"]
        take_bit_eq_mod [of _ "unat x * 2 ^ k"]) simp
  then show ?thesis by (simp add: unat_word_ariths mod_simps)
qed

lemma unat_drop: "unat (drop_bit k (x :: 8 word)) = unat x div 2 ^ k"
  by (simp only: unat_drop_bit_eq drop_bit_eq_div [of k "unat x"])

lemma encode_group_nat:
  "map unat (encode_group [a, b, c]) =
     [unat a div 4, unat a mod 4 * 16 + unat b div 16, unat b mod 16 * 4 + unat c div 64,
      unat c mod 64]"
  using unat8 [of a] unat8 [of b] unat8 [of c]
  by (simp add: encode_group_def shift_masks unat_push_add unat_drop and_masks
      del: push_bit_and drop_bit_and)

lemma decode_group_nat:
  "map unat (decode_group [p, q, r, s]) =
     [(unat p * 4 + unat q div 16 mod 4) mod 256, (unat q mod 16 * 16 + unat r div 4 mod 16) mod 256,
      (unat r mod 4 * 64 + unat s) mod 256]"
  by (simp add: decode_group_def shift_masks unat_push_add unat_drop and_masks
      del: push_bit_and drop_bit_and)

section \<open>Encoding by groups\<close>

lemma str_find_nth:
  assumes "distinct s" and "i < length s"
  shows "str_find s [s ! i] 0 = Some i"
proof -
  have "takeWhile (\<lambda>x. x \<noteq> s ! i) s = take i s"
    using assms by (intro takeWhile_eq_take_P_nth) (auto simp: nth_eq_iff_index_eq)
  then show ?thesis using assms by (simp add: str_find_def find_from_char)
qed

lemma alphabet: "distinct kBase64String" "length kBase64String = 64"
  by (simp_all add: kBase64String_def)

lemma b64_find_at [simp]:
  assumes "unat w < 64"
  shows "b64_find (byte (b64_at w)) = w"
  using assms str_find_nth [OF alphabet(1)] by (simp add: b64_find_def b64_at_def alphabet)

lemma alphabet_class: "\<forall>c \<in> set kBase64String. IsBase64 c \<and> c \<noteq> CHR ''=''"
  by (simp add: kBase64String_def IsBase64_def isalnum_def isalpha_def isupper_def islower_def isdigit_def)

lemma b64_at_class: "unat w < 64 \<Longrightarrow> IsBase64 (b64_at w) \<and> b64_at w \<noteq> CHR ''=''"
  using alphabet_class by (simp add: b64_at_def alphabet)

lemma map_unat_inject: "map unat xs = map unat ys \<Longrightarrow> xs = ys"
  by (rule map_injective [of unat]) (auto intro: injI)

lemma encode_group_sextets: "\<forall>w \<in> set (encode_group [a, b, c]). unat w < 64"
proof -
  have "\<forall>n \<in> set (map unat (encode_group [a, b, c])). n < 64"
    unfolding encode_group_nat using unat8 [of a] unat8 [of b] unat8 [of c] by auto
  then show ?thesis by simp
qed

lemma length_encode_group [simp]: "length (encode_group x) = 4"
  by (simp add: encode_group_def)

lemma split_div_mod:
  assumes "r < k"
  shows "(q * k + r) div k = (q :: nat)" and "(q * k + r) mod k = r"
  using assms by simp_all

lemma decode_encode_group: "decode_group (encode_group [a, b, c]) = [a, b, c]"
proof -
  obtain p q r s where g: "encode_group [a, b, c] = [p, q, r, s]"
    by (simp add: encode_group_def)
  have u: "unat p = unat a div 4" "unat q = unat a mod 4 * 16 + unat b div 16"
    "unat r = unat b mod 16 * 4 + unat c div 64" "unat s = unat c mod 64"
    using encode_group_nat [of a b c] by (simp_all add: g)
  have e:
    "(x div 4 * 4 + (x mod 4 * 16 + y div 16) div 16 mod 4) mod 256 = x"
    "((x mod 4 * 16 + y div 16) mod 16 * 16 + (y mod 16 * 4 + z div 64) div 4 mod 16) mod 256 = y"
    "((y mod 16 * 4 + z div 64) mod 4 * 64 + z mod 64) mod 256 = z"
    if "x < 256" "y < 256" "z < 256" for x y z :: nat
  proof -
    have q: "y div 16 < 16" "z div 64 < 4" using that by auto
    show "(x div 4 * 4 + (x mod 4 * 16 + y div 16) div 16 mod 4) mod 256 = x"
      using that(1) by (simp add: split_div_mod [OF q(1)])
    show "((x mod 4 * 16 + y div 16) mod 16 * 16 + (y mod 16 * 4 + z div 64) div 4 mod 16) mod 256 = y"
      using that(2) by (simp add: split_div_mod [OF q(1)] split_div_mod [OF q(2)])
    show "((y mod 16 * 4 + z div 64) mod 4 * 64 + z mod 64) mod 256 = z"
      using that(3) by (simp add: split_div_mod [OF q(2)])
  qed
  have "map unat (decode_group [p, q, r, s]) = map unat [a, b, c]"
    by (simp only: decode_group_nat u e [OF unat8 unat8 unat8] list.map)
  then show ?thesis unfolding g by (rule map_unat_inject)
qed

text \<open>The reference encoding of RFC 4648: three bytes at a time, the last group padded.\<close>

fun enc3 :: "string \<Rightarrow> string" where
  "enc3 (a # b # c # rest) = map b64_at (encode_group [byte a, byte b, byte c]) @ enc3 rest"
| "enc3 [a, b] = map b64_at (take 3 (encode_group [byte a, byte b, 0])) @ ''=''"
| "enc3 [a] = map b64_at (take 2 (encode_group [byte a, 0, 0])) @ ''==''"
| "enc3 [] = []"

lemma encode_enc3_acc:
  "(case encode_loop [] bs acc of (arr, acc') \<Rightarrow> encode_tail arr acc') = acc @ enc3 bs"
  by (induction bs arbitrary: acc rule: enc3.induct)
    (simp_all add: encode_tail_def numeral_2_eq_2 numeral_3_eq_3)

lemma base64Encode_enc3: "base64Encode bs = enc3 bs"
  using encode_enc3_acc [of bs "[]"] by (simp add: base64Encode_def)

lemma decode_loop_group:
  assumes "\<forall>w \<in> set [p, q, r, s]. unat w < 64"
  shows "decode_loop [] (map b64_at [p, q, r, s] @ rest) acc =
    decode_loop [] rest (acc @ map unbyte (decode_group [p, q, r, s]))"
  using assms by (simp add: b64_at_class)

lemma decode_enc3_acc:
  "(case decode_loop [] (enc3 bs) acc of (arr, acc') \<Rightarrow> decode_tail arr acc') = acc @ bs"
proof (induction bs arbitrary: acc rule: enc3.induct)
  case (1 a b c rest)
  obtain p q r s where g: "encode_group [byte a, byte b, byte c] = [p, q, r, s]"
    by (simp add: encode_group_def)
  have "decode_group [p, q, r, s] = [byte a, byte b, byte c]"
    using decode_encode_group [of "byte a" "byte b" "byte c"] by (simp add: g)
  moreover have "\<forall>w \<in> set [p, q, r, s]. unat w < 64"
    using encode_group_sextets [of "byte a" "byte b" "byte c"] by (simp only: g)
  ultimately show ?case
    using 1 [of "acc @ [a, b, c]"] decode_loop_group [of p q r s "enc3 rest" acc] by (simp add: g)
next
  case (2 a b)
  obtain p q r s where g: "encode_group [byte a, byte b, 0] = [p, q, r, s]"
    by (simp add: encode_group_def)
  have d: "decode_group [p, q, r, s] = [byte a, byte b, 0]"
    using decode_encode_group [of "byte a" "byte b" 0] by (simp add: g)
  have w: "unat p < 64" "unat q < 64" "unat r < 64"
    using encode_group_sextets [of "byte a" "byte b" 0] by (simp_all add: g)
  then show ?case
    using d by (simp add: g b64_at_class decode_tail_def decode_group_def numeral_2_eq_2 numeral_3_eq_3)
next
  case (3 a)
  obtain p q r s where g: "encode_group [byte a, 0, 0] = [p, q, r, s]"
    by (simp add: encode_group_def)
  have d: "decode_group [p, q, r, s] = [byte a, 0, 0]"
    using decode_encode_group [of "byte a" 0 0] by (simp add: g)
  have w: "unat p < 64" "unat q < 64"
    using encode_group_sextets [of "byte a" 0 0] by (simp_all add: g)
  then show ?case
    using d by (simp add: g b64_at_class decode_tail_def decode_group_def numeral_2_eq_2 numeral_3_eq_3)
next
  case 4
  show ?case by (simp add: decode_tail_def)
qed

section \<open>Decoding into a buffer\<close>

lemma poke_all_ok:
  assumes "length out < sz" and "ws \<noteq> []"
  shows "poke_all sz out ws =
    Inr (sz \<le> length out + length ws, take sz (out @ map (\<lambda>w. unbyte (ucast w)) ws))"
  using assms
proof (induction ws arbitrary: out)
  case Nil
  then show ?case by simp
next
  case (Cons w ws)
  obtain m where sz: "sz = Suc (length out + m)"
    using Cons.prems(1) less_imp_Suc_add by blast
  with Cons.IH [of "out @ [unbyte (ucast w)]"] show ?case
    by (cases "ws = []"; cases m) (simp_all add: poke_def)
qed

lemma data_loop_safe:
  "length out < sz \<Longrightarrow> \<exists>res. data_loop sz out a bc s = Inr res \<and> length res \<le> sz"
proof (induction sz out a bc s rule: data_loop.induct)
  case (1 sz out a bc)
  then show ?case by (auto simp: poke_all_ok poke_def)
next
  case (2 sz out a bc c cs)
  show ?case
  proof (cases "b64table c = -1")
    case True
    with "2.IH"(1) [OF refl] "2.prems" show ?thesis by simp
  next
    case False
    define a' where "a' = a OR push_bit (18 - bc) (word_of_int (b64table c) AND 63)"
    let ?ws = "[drop_bit 16 a', drop_bit 8 a', a']"
    let ?out = "take sz (out @ map (\<lambda>w. unbyte (ucast w)) ?ws)"
    have pk: "poke_all sz out ?ws = Inr (sz \<le> length out + 3, ?out)"
      using "2.prems" by (subst poke_all_ok) (simp_all add: numeral_3_eq_3)
    have step: "data_loop sz out a bc (c # cs) =
        (if bc + 6 > 18 then (if sz \<le> length out + 3 then Inr ?out else data_loop sz ?out 0 0 cs)
         else data_loop sz out a' (bc + 6) cs)"
      using False pk by (simp only: data_loop.simps Let_def flip: a'_def) simp
    have "\<not> sz \<le> length out + 3 \<Longrightarrow> 18 < bc + 6 \<Longrightarrow>
        \<exists>res. data_loop sz ?out 0 0 cs = Inr res \<and> length res \<le> sz"
      using "2.IH"(2) [OF refl False a'_def refl _ pk refl] by simp
    moreover have "\<not> 18 < bc + 6 \<Longrightarrow>
        \<exists>res. data_loop sz out a' (bc + 6) cs = Inr res \<and> length res \<le> sz"
      using "2.IH"(3) [OF refl False a'_def refl] "2.prems" by simp
    ultimately show ?thesis by (simp add: step del: take_append data_loop.simps)
  qed
qed

lemma b64table_alphabet:
  "list_all (\<lambda>i. b64table (kBase64String ! i) = int i) [0..<64]"
  by (simp add: kBase64String_def b64table_def isdigit_def isupper_def islower_def upt_rec)

lemma b64table_at [simp]: "unat w < 64 \<Longrightarrow> b64table (b64_at w) = int (unat w)"
  using b64table_alphabet by (auto simp: b64_at_def list_all_iff)

lemma b64table_pad [simp]: "b64table (CHR ''='') = -1"
  by (simp add: b64table_def isdigit_def isupper_def islower_def)

lemma take_sextet:
  assumes "n < 64"
  shows "take_bit 6 (of_nat n :: 32 word) = of_nat n"
proof -
  have u: "unat (of_nat n :: 32 word) = n" using assms by (simp add: unat_of_nat)
  have "unat (take_bit 6 (of_nat n :: 32 word)) = take_bit 6 n"
    by (simp only: unsigned_take_bit_eq u)
  then show ?thesis using assms u by (simp add: word_unat_eq_iff take_bit_eq_mod [of 6 n])
qed

lemma sextet_and: "n < 64 \<Longrightarrow> (word_of_int (int n) AND 63 :: 32 word) = of_nat n"
proof -
  assume n: "n < 64"
  have "(63 :: 32 word) = mask 6" by (simp add: mask_eq_exp_minus_1)
  then have "(word_of_int (int n) AND 63 :: 32 word) = take_bit 6 (of_nat n)"
    by (simp add: take_bit_eq_mask)
  also have "\<dots> = of_nat n"
    using n by (rule take_sextet)
  finally show ?thesis .
qed

lemma push_or_sextet:
  fixes v :: "32 word"
  assumes "n < 64"
  shows "push_bit (6 + k) v OR push_bit k (of_nat n) = push_bit k (push_bit 6 v + of_nat n)"
proof -
  have "take_bit 6 (of_nat n :: 32 word) = of_nat n"
    using assms by (rule take_sextet)
  then have "\<not> bit (of_nat n :: 32 word) i" if "6 \<le> i" for i
    using that by (metis bit_take_bit_iff not_less)
  then have "push_bit 6 v + of_nat n = push_bit 6 v OR of_nat n"
    by (intro disjunctive_add) (auto simp: bit_simps)
  then show ?thesis by (simp add: push_bit_or add.commute)
qed

text \<open>The three bytes of a group in the 24-bit accumulator.\<close>

definition word24 :: "8 word \<Rightarrow> 8 word \<Rightarrow> 8 word \<Rightarrow> 8 word \<Rightarrow> 32 word" where
  "word24 p q r s =
     push_bit 6 (push_bit 6 (push_bit 6 (ucast p) + ucast q) + ucast r) + ucast s"

lemma or_steps:
  fixes v :: "32 word" and w :: "8 word"
  assumes "unat w < 64"
  shows "push_bit 18 v OR push_bit 12 (ucast w) = push_bit 12 (push_bit 6 v + ucast w)"
    and "push_bit 12 v OR push_bit 6 (ucast w) = push_bit 6 (push_bit 6 v + ucast w)"
    and "push_bit 6 v OR ucast w = push_bit 6 v + ucast w"
  using push_or_sextet [OF assms, of 12 v] push_or_sextet [OF assms, of 6 v]
    push_or_sextet [OF assms, of 0 v]
  by simp_all

lemma data_loop_sextet:
  assumes "unat w < 64"
  shows "data_loop sz out a bc (b64_at w # cs) =
    (let a' = a OR push_bit (18 - bc) (ucast w)
     in if bc + 6 > 18 then
          (case poke_all sz out [drop_bit 16 a', drop_bit 8 a', a'] of
             Inl e \<Rightarrow> Inl e
           | Inr (ret, out') \<Rightarrow> if ret then Inr out' else data_loop sz out' 0 0 cs)
        else data_loop sz out a' (bc + 6) cs)"
proof -
  have "int (unat w) \<noteq> -1" by linarith
  moreover have "(word_of_int (int (unat w)) AND 63 :: 32 word) = ucast w"
    using sextet_and [OF assms] by simp
  ultimately show ?thesis
    by (simp only: data_loop.simps b64table_at [OF assms] Let_def if_False simp_thms)
qed

lemma data_loop_pad: "data_loop sz out a bc (CHR ''='' # cs) = data_loop sz out a bc cs"
  by simp

lemma or_word24:
  assumes "unat p < 64" "unat q < 64" "unat r < 64" "unat s < 64"
  shows "push_bit 18 (ucast p) OR push_bit 12 (ucast q) = word24 p q 0 0"
    and "word24 p q 0 0 OR push_bit 6 (ucast r) = word24 p q r 0"
    and "word24 p q r 0 OR ucast s = word24 p q r s"
  using assms by (simp_all add: or_steps word24_def)

lemma data_loop_groups:
  assumes "unat p < 64" "unat q < 64"
  shows "data_loop sz out 0 0 (b64_at p # b64_at q # cs) = data_loop sz out (word24 p q 0 0) 12 cs"
  using assms or_word24 [OF assms, of 0 0]
  by (simp add: data_loop_sextet Let_def del: data_loop.simps)

lemma data_loop_group3:
  assumes "unat p < 64" "unat q < 64" "unat r < 64"
  shows "data_loop sz out 0 0 (b64_at p # b64_at q # b64_at r # cs) =
    data_loop sz out (word24 p q r 0) 18 cs"
  using assms or_word24 [OF assms, of 0]
  by (simp add: data_loop_groups data_loop_sextet Let_def del: data_loop.simps)

lemma data_loop_group4:
  assumes "unat p < 64" "unat q < 64" "unat r < 64" "unat s < 64"
  shows "data_loop sz out 0 0 (b64_at p # b64_at q # b64_at r # b64_at s # rest) =
      (let a = word24 p q r s in case poke_all sz out [drop_bit 16 a, drop_bit 8 a, a] of
         Inl e \<Rightarrow> Inl e
       | Inr (ret, out') \<Rightarrow> if ret then Inr out' else data_loop sz out' 0 0 rest)"
  using assms or_word24 [OF assms]
  by (simp add: data_loop_group3 data_loop_sextet Let_def
      del: data_loop.simps poke_all.simps drop_bit_or)

lemma unat_ucast32: "unat (ucast (w :: 8 word) :: 32 word) = unat w"
  using unat8 [of w] by (simp only: unsigned_ucast_eq take_bit_eq_mod [of _ "unat w"]) simp

lemma unat_push6:
  fixes w :: "8 word"
  assumes "unat (v :: 32 word) < 2 ^ 20" and "unat w < 64"
  shows "unat (push_bit 6 v + ucast w) = unat v * 64 + unat w"
proof -
  have "unat (push_bit 6 v) = unat v * 64"
    using assms(1) by (simp only: unsigned_push_bit_eq push_bit_eq_mult [of 6 "unat v"]
        take_bit_eq_mod [of _ "unat v * 2 ^ 6"]) simp
  then show ?thesis using assms by (simp add: unat_word_ariths unat_ucast32)
qed

lemma unat_word24:
  assumes g: "encode_group [a, b, c] = [p, q, r, s]"
  shows "unat (word24 p q r s) = unat a * 65536 + unat b * 256 + unat c"
proof -
  have w: "unat p < 64" "unat q < 64" "unat r < 64" "unat s < 64"
    using encode_group_sextets [of a b c] by (simp_all add: g)
  have u: "unat p = unat a div 4" "unat q = unat a mod 4 * 16 + unat b div 16"
    "unat r = unat b mod 16 * 4 + unat c div 64" "unat s = unat c mod 64"
    using encode_group_nat [of a b c] by (simp_all add: g)
  have "unat (word24 p q r s) = ((unat p * 64 + unat q) * 64 + unat r) * 64 + unat s"
    unfolding word24_def using w by (simp add: unat_push6 unat_ucast32)
  moreover have "((x div 4 * 64 + (x mod 4 * 16 + y div 16)) * 64 + (y mod 16 * 4 + z div 64)) * 64 + z mod 64 =
      x * 65536 + y * 256 + z" for x y z :: nat
  proof -
    have e: "((x1 * 64 + (x0 * 16 + y1)) * 64 + (y0 * 4 + z1)) * 64 + z0 =
        (x1 * 4 + x0) * 65536 + (y1 * 16 + y0) * 256 + (z1 * 64 + z0)" for x1 x0 y1 y0 z1 z0 :: nat
      by simp
    show ?thesis by (simp only: e div_mult_mod_eq)
  qed
  ultimately show ?thesis by (simp only: u)
qed

lemma cells_of_word24:
  assumes "unat (x :: 32 word) = a * 65536 + b * 256 + c" and "a < 256" "b < 256" "c < 256"
  shows "unat (ucast (drop_bit 16 x) :: 8 word) = a" "unat (ucast (drop_bit 8 x) :: 8 word) = b"
    "unat (ucast x :: 8 word) = c"
proof -
  have uc: "unat (ucast y :: 8 word) = unat (y :: 32 word) mod 256" for y
    by (simp only: unsigned_ucast_eq take_bit_eq_mod [of _ "unat y"]) simp
  have dr: "unat (drop_bit k x) = unat x div 2 ^ k" for k
    by (simp only: unat_drop_bit_eq drop_bit_eq_div [of k "unat x"])
  show "unat (ucast (drop_bit 16 x) :: 8 word) = a" "unat (ucast (drop_bit 8 x) :: 8 word) = b"
    "unat (ucast x :: 8 word) = c"
    using assms split_div_mod [of "b * 256 + c" 65536 a] split_div_mod [of c 256 "a * 256 + b"]
      split_div_mod [of b 256 a]
    by (simp_all add: uc dr algebra_simps)
qed

lemma poke_group:
  assumes g: "encode_group [byte a, byte b, byte c] = [p, q, r, s]"
  shows "map (\<lambda>w. unbyte (ucast w)) [drop_bit 16 (word24 p q r s), drop_bit 8 (word24 p q r s), word24 p q r s]
    = [a, b, c]"
proof -
  have "unat (word24 p q r s) = uchar a * 65536 + uchar b * 256 + uchar c"
    using unat_word24 [OF g] by simp
  from cells_of_word24 [OF this uchar_less uchar_less uchar_less]
  show ?thesis by (simp add: unbyte_def)
qed

lemma data_loop_enc3:
  "length out < sz \<Longrightarrow> data_loop sz out 0 0 (enc3 bs) = Inr (take sz (out @ bs))"
proof (induction bs arbitrary: out rule: enc3.induct)
  case (1 a b c rest)
  obtain p q r s where g: "encode_group [byte a, byte b, byte c] = [p, q, r, s]"
    by (simp add: encode_group_def)
  have w: "unat p < 64" "unat q < 64" "unat r < 64" "unat s < 64"
    using encode_group_sextets [of "byte a" "byte b" "byte c"] by (simp_all add: g)
  have "data_loop sz out 0 0 (enc3 (a # b # c # rest)) =
      (if sz \<le> length out + 3 then Inr (take sz (out @ [a, b, c]))
       else data_loop sz (take sz (out @ [a, b, c])) 0 0 (enc3 rest))"
    using data_loop_group4 [OF w, of sz out "enc3 rest"] poke_group [OF g] "1.prems"
    by (simp add: g Let_def poke_all_ok del: data_loop.simps poke_all.simps)
  moreover obtain m where "sz = Suc (length out + m)"
    using "1.prems" less_imp_Suc_add by blast
  ultimately show ?case
    using "1.IH" [of "out @ [a, b, c]"]
    by (cases m; cases "m - 1"; simp del: data_loop.simps enc3.simps split: if_splits nat.splits)
next
  case (2 a b)
  obtain p q r s where g: "encode_group [byte a, byte b, byte (CHR 0x00)] = [p, q, r, s]"
    by (simp add: encode_group_def)
  have w: "unat p < 64" "unat q < 64" "unat r < 64" "unat s < 64"
    using encode_group_sextets [of "byte a" "byte b" "byte (CHR 0x00)"] by (simp_all add: g)
  have "unat (word24 p q r s) = uchar a * 65536 + uchar b * 256 + uchar (CHR 0x00)"
    using unat_word24 [OF g] by simp
  moreover have "s = 0"
    using encode_group_nat [of "byte a" "byte b" 0] g by (simp add: byte_def word_unat_eq_iff)
  ultimately have o: "map (\<lambda>w. unbyte (ucast w)) [drop_bit 16 (word24 p q r 0), drop_bit 8 (word24 p q r 0)] = [a, b]"
    using cells_of_word24(1,2) [of "word24 p q r 0" "uchar a" "uchar b" 0]
    by (simp add: unbyte_def uchar_less)
  obtain m where "sz = Suc (length out + m)"
    using "2.prems" less_imp_Suc_add by blast
  with o g w show ?case
    by (cases m) (simp_all add: data_loop_group3 data_loop_pad byte_def poke_all_ok poke_def del: data_loop.simps(2) drop_bit_or)

next
  case (3 a)
  obtain p q r s where g: "encode_group [byte a, byte (CHR 0x00), byte (CHR 0x00)] = [p, q, r, s]"
    by (simp add: encode_group_def)
  have w: "unat p < 64" "unat q < 64" "unat r < 64" "unat s < 64"
    using encode_group_sextets [of "byte a" "byte (CHR 0x00)" "byte (CHR 0x00)"] by (simp_all add: g)
  have "unat (word24 p q r s) = uchar a * 65536 + uchar (CHR 0x00) * 256 + uchar (CHR 0x00)"
    using unat_word24 [OF g] by simp
  moreover have "s = 0" "r = 0"
    using encode_group_nat [of "byte a" 0 0] g by (simp_all add: byte_def word_unat_eq_iff)
  ultimately have o: "unbyte (ucast (drop_bit 16 (word24 p q 0 0))) = a"
    using cells_of_word24(1) [of "word24 p q 0 0" "uchar a" 0 0] by (simp add: unbyte_def uchar_less)
  with g w "3.prems" show ?case
    by (simp add: data_loop_groups data_loop_pad byte_def poke_all_ok poke_def del: data_loop.simps(2) drop_bit_or)

next
  case 4
  then show ?case by simp
qed

section \<open>Properties\<close>

interpretation b64: codec base64Encode base64Decode
  using decode_enc3_acc [of _ "[]"]
  by unfold_locales (simp add: base64Encode_enc3 base64Decode_def)

lemma length_enc3: "length (enc3 bs) = 4 * ((length bs + 2) div 3)"
  by (induction bs rule: enc3.induct) (simp_all, presburger)

lemma data_loop_filter:
  "data_loop sz out a bc (filter (\<lambda>c. b64table c \<noteq> -1) s) = data_loop sz out a bc s"
proof (induction sz out a bc s rule: data_loop.induct)
  case (1 sz out a bc)
  show ?case by simp
next
  case (2 sz out a bc c cs)
  show ?case
  proof (cases "b64table c = -1")
    case True
    with "2.IH"(1) [OF refl] show ?thesis by simp
  next
    case False
    note ih = "2.IH"(2-3) [OF refl False refl refl]
    from False ih show ?thesis
      by (simp only: filter.simps not_False_eq_True if_True data_loop.simps Let_def if_False)
        (simp cong: sum.case_cong split: sum.split prod.split)
  qed
qed

lemma decode_loop_takeWhile:
  "decode_loop arr (takeWhile (\<lambda>c. c \<noteq> CHR ''='' \<and> IsBase64 c) s) acc = decode_loop arr s acc"
  by (induction s arbitrary: arr acc) (simp_all add: Let_def)

text \<open>
  C25: the decoder undoes the encoder on every byte string, and two byte strings have the same
  encoding only when they are equal.
\<close>

theorem base64_roundtrip:
  "base64Decode (base64Encode bs) = bs \<and> (base64Encode bs = base64Encode bs' \<longleftrightarrow> bs = bs')"
  by (simp add: b64.decode_encode b64.encode_eq_iff)

text \<open>
  The buffer decoder, given an encoding and a buffer of any size, writes exactly the first bytes
  of the original that fit.
\<close>

theorem base64_to_data: "base64DecodeToData (base64Encode bs) n = Inr (take n bs)"
  using data_loop_enc3 [of "[]" n bs] by (simp add: base64DecodeToData_def base64Encode_enc3)

text \<open>
  C26: on every input, encoding or not, the buffer decoder returns without a write outside the
  destination.
\<close>

theorem base64_data_safe: "\<exists>out. base64DecodeToData s n = Inr out \<and> length out \<le> n"
  using data_loop_safe [of "[]" n 0 0 s] by (simp add: base64DecodeToData_def)

text \<open>
  The encoding is the reference encoding by groups of three bytes, it has four characters for
  each started group.
\<close>

theorem base64_reference:
  "base64Encode bs = enc3 bs \<and> length (base64Encode bs) = 4 * ((length bs + 2) div 3)"
  by (simp add: base64Encode_enc3 length_enc3)

text \<open>
  The two decoders treat foreign characters differently: the string decoder stops at the first
  one, the buffer decoder skips them all.
\<close>

theorem base64_foreign:
  "base64Decode (takeWhile (\<lambda>c. c \<noteq> CHR ''='' \<and> IsBase64 c) s) = base64Decode s \<and>
   base64DecodeToData (filter (\<lambda>c. b64table c \<noteq> -1) s) n = base64DecodeToData s n"
  by (simp_all add: base64Decode_def decode_loop_takeWhile base64DecodeToData_def data_loop_filter)

end
