(* ===== verification/As_Object.thy ===== *)
theory As_Object
  imports Json_Util As_Gzip Base64
begin

text \<open>
  \<open>include/as_object.hpp\<close>: the class \<open>AS_OBJECT\<close>, one connection to the Aerospike cluster. The
  Aerospike client library is a parameter, a record of its status codes and functions. A function
  that talks to the cluster takes the state \<open>'w\<close> of the world outside and returns its status, the
  code it leaves in the \<open>as_error\<close> argument and the next state. The value of a bin is modelled by
  the type tags the code tests, with the payload the accessor of that type returns; a list or a
  map by the text \<open>as_val_tostring\<close> gives.

  \<open>as_\<close> and \<open>as_record\<close> memory management is left out. The C functions throw nothing, so the
  \<open>catch (...)\<close> branches are not reached.
\<close>

section \<open>The client library\<close>

datatype as_val =
    As_boolean bool | As_integer int | As_string "string option" | As_bytes string
  | As_list string | As_map string | As_nil | As_other

record as_record =
  bins :: "(string \<times> as_val) list"
  gen :: int
  ttl :: int

record as_policies =
  read_timeout :: "32 word"
  apply_timeout :: "32 word"

record as_config =
  hosts :: "(string \<times> int) list"
  policies :: as_policies
  lua_cache_enabled :: bool

record as_key =
  key_ns :: string
  key_set :: string
  key_value :: string

record 'w aerospike =
  AEROSPIKE_OK :: int
  AEROSPIKE_ERR :: int
  AEROSPIKE_ERR_PARAM :: int
  AEROSPIKE_ERR_CLIENT :: int
  AEROSPIKE_ERR_QUERY :: int
  AEROSPIKE_ERR_TIMEOUT :: int
  AEROSPIKE_ERR_CLUSTER_CHANGE :: int
  AEROSPIKE_ERR_CLUSTER :: int
  AEROSPIKE_ERR_INVALID_HOST :: int
  as_config_init :: as_config
  as_config_add_host :: "as_config \<Rightarrow> string \<Rightarrow> int \<Rightarrow> as_config"
  as_policies_init :: "as_policies \<Rightarrow> as_policies"
  random_shuffle :: "string list \<Rightarrow> 'w \<Rightarrow> string list \<times> 'w"
  aerospike_connect :: "as_config \<Rightarrow> 'w \<Rightarrow> int \<times> int \<times> 'w"
  aerospike_key_get :: "as_config \<Rightarrow> as_key \<Rightarrow> 'w \<Rightarrow> int \<times> int \<times> as_record \<times> 'w"
  aerospike_key_put :: "as_config \<Rightarrow> as_key \<Rightarrow> as_record \<Rightarrow> 'w \<Rightarrow> int \<times> int \<times> 'w"
  aerospike_key_remove :: "as_config \<Rightarrow> as_key \<Rightarrow> 'w \<Rightarrow> int \<times> int \<times> 'w"
  as_record_set :: "as_record \<Rightarrow> string \<Rightarrow> as_val \<Rightarrow> as_record"
  as_error_string :: "int \<Rightarrow> string"
  aerospike_close :: "as_config \<Rightarrow> 'w \<Rightarrow> int \<times> int \<times> 'w"
  aerospike_destroy :: "as_config \<Rightarrow> 'w \<Rightarrow> 'w"

definition as_key_init :: "string \<Rightarrow> string \<Rightarrow> string \<Rightarrow> as_key" where
  "as_key_init ns s k = \<lparr>key_ns = c_str ns, key_set = c_str s, key_value = c_str k\<rparr>"

section \<open>The object and its life\<close>

record as_object =
  isalive :: bool
  as_err :: int
  as_cfg :: as_config

text \<open>The configuration the constructor builds, in the order of its statements.\<close>

definition object_config :: "'w aerospike \<Rightarrow> string list \<Rightarrow> int \<Rightarrow> 32 word \<Rightarrow> as_config" where
  "object_config A servers port timeout_ms =
     (let c1 = foldl (\<lambda>c server. as_config_add_host A c (c_str server) port) (as_config_init A) servers;
          c2 = c1\<lparr>policies := (policies c1)\<lparr>read_timeout := timeout_ms\<rparr>\<rparr>;
          c3 = c2\<lparr>policies := (policies c2)\<lparr>apply_timeout := timeout_ms\<rparr>\<rparr>;
          c4 = c3\<lparr>lua_cache_enabled := False\<rparr>
      in c4\<lparr>policies := as_policies_init A (policies c4)\<rparr>)"

text \<open>The constructor: the new object, the shuffled server list it leaves in its caller's list.\<close>

definition AS_OBJECT_new ::
  "'w aerospike \<Rightarrow> string list \<Rightarrow> int \<Rightarrow> 32 word \<Rightarrow> 'w \<Rightarrow> as_object \<times> string list \<times> 'w" where
  "AS_OBJECT_new A servers port timeout_ms w =
     (let (servers', w1) = random_shuffle A servers w;
          cfg = object_config A servers' port timeout_ms;
          (st, err, w2) = aerospike_connect A cfg w1
      in (\<lparr>isalive = (st = AEROSPIKE_OK A), as_err = err, as_cfg = cfg\<rparr>, servers', w2))"

text \<open>The destructor: closing may fail, the handle is destroyed all the same.\<close>

definition AS_OBJECT_delete :: "'w aerospike \<Rightarrow> as_object \<Rightarrow> 'w \<Rightarrow> 'w" where
  "AS_OBJECT_delete A x w =
     (let (st, err, w') = aerospike_close A (as_cfg x) w
      in if st = AEROSPIKE_OK A then aerospike_destroy A (as_cfg x) w'
         else aerospike_destroy A (as_cfg x) w')"

definition AS_OBJECT_STATUS :: "'w aerospike \<Rightarrow> as_object \<Rightarrow> 'w \<Rightarrow> bool \<times> as_object \<times> 'w" where
  "AS_OBJECT_STATUS A x w =
     (if \<not> isalive x then (False, x, w)
      else
        (let (st, err, rec, w') = aerospike_key_get A (as_cfg x) (as_key_init ''ns'' ''set'' ''key'') w;
             x' = x\<lparr>as_err := err\<rparr>
         in if st = AEROSPIKE_ERR_PARAM A then (False, x', w')
            else if st = AEROSPIKE_ERR_CLIENT A then (False, x', w')
            else if st = AEROSPIKE_ERR A then (False, x', w')
            else (True, x', w')))"

definition AS_OBJECT_RECONNECT :: "'w aerospike \<Rightarrow> as_object \<Rightarrow> 'w \<Rightarrow> as_object \<times> 'w" where
  "AS_OBJECT_RECONNECT A x w =
     (let (st, err, w') = aerospike_connect A (as_cfg x) w
      in (x\<lparr>as_err := err, isalive := (st = AEROSPIKE_OK A)\<rparr>, w'))"

definition get_as_status_msg :: "'w aerospike \<Rightarrow> int \<Rightarrow> string" where
  "get_as_status_msg A nRet = as_error_string A nRet"

definition isAliveAsServer :: "'w aerospike \<Rightarrow> as_object \<Rightarrow> bool \<times> as_object" where
  "isAliveAsServer A x =
     (let x' =
        (if as_err x = AEROSPIKE_ERR_TIMEOUT A then x
         else if as_err x = AEROSPIKE_ERR_CLIENT A then x\<lparr>isalive := False\<rparr>
         else if as_err x = AEROSPIKE_ERR_CLUSTER_CHANGE A then x\<lparr>isalive := False\<rparr>
         else if as_err x = AEROSPIKE_ERR_CLUSTER A then x\<lparr>isalive := False\<rparr>
         else if as_err x = AEROSPIKE_ERR_INVALID_HOST A then x\<lparr>isalive := False\<rparr>
         else x)
      in (isalive x', x'))"

section \<open>From a record to JSON\<close>

definition as_string_len :: "string option \<Rightarrow> nat" where
  "as_string_len s = (case s of None \<Rightarrow> 0 | Some v \<Rightarrow> length v)"

text \<open>The copy with its terminating zero, read as a C string.\<close>

definition as_string_to_byte :: "string option \<Rightarrow> string" where
  "as_string_to_byte s = (case s of None \<Rightarrow> [] | Some v \<Rightarrow> c_str v)"

text \<open>\<open>json_loads\<close> of a buffer that is not terminated by a zero reads past its end.\<close>

definition loads_buffer :: "'j jansson \<Rightarrow> string \<Rightarrow> 'j option outcome" where
  "loads_buffer J buffer =
     (if CHR 0x00 \<in> set buffer then Inr (json_loads J (c_str buffer)) else Inl Out_of_bounds_read)"

definition convert_string ::
  "'j jansson \<Rightarrow> 'z zlib \<Rightarrow> (nat \<Rightarrow> bool) \<Rightarrow> string \<Rightarrow> 'j option outcome" where
  "convert_string J Z realloc srcValue =
     (let base64dec = base64Decode srcValue
      in if base64dec \<noteq> [] then
           (case gzdecode Z realloc (base64dec @ [CHR 0x00]) (length base64dec) of
              Inl e \<Rightarrow> Inl e
            | Inr (Some gzencode) \<Rightarrow> Inr (json_loads J (c_str gzencode))
            | Inr None \<Rightarrow> Inr (json_loads J (c_str base64dec)))
         else Inr (json_string J srcValue))"

definition convert_bin ::
  "'j jansson \<Rightarrow> 'z zlib \<Rightarrow> (nat \<Rightarrow> bool) \<Rightarrow> string \<times> as_val \<Rightarrow> 'j \<Rightarrow> 'j outcome" where
  "convert_bin J Z realloc bin obj =
     (let (name, value) = bin;
          put = json_object_set_new_nocheck J obj name
      in if name = [] then Inr obj
         else
           (case value of
              As_boolean b \<Rightarrow> Inr (put (json_boolean J b))
            | As_integer i \<Rightarrow> Inr (put (json_integer J i))
            | As_string s \<Rightarrow>
                if as_string_len s = 0 then Inr obj
                else map_sum id put (convert_string J Z realloc (as_string_to_byte s))
            | As_bytes b \<Rightarrow>
                if b = [] then Inr obj else map_sum id put (loads_buffer J b)
            | As_list t \<Rightarrow> Inr (put (json_loads J (c_str t)))
            | As_map t \<Rightarrow> Inr (put (json_loads J (c_str t)))
            | _ \<Rightarrow> Inr (put (json_string J [])))) "

fun data_convert_to_json_v1 ::
  "'j jansson \<Rightarrow> 'z zlib \<Rightarrow> (nat \<Rightarrow> bool) \<Rightarrow> (string \<times> as_val) list \<Rightarrow> 'j \<Rightarrow> 'j outcome" where
  "data_convert_to_json_v1 J Z realloc [] obj = Inr obj"
| "data_convert_to_json_v1 J Z realloc (bin # rest) obj =
     (case convert_bin J Z realloc bin obj of
        Inl e \<Rightarrow> Inl e
      | Inr obj' \<Rightarrow> data_convert_to_json_v1 J Z realloc rest obj')"

section \<open>From JSON to a record\<close>

text \<open>
  \<open>doubleToLPSTR\<close> copies 20 characters from the C string of the printed number, which has one
  readable character after its last. The result is the copy.
\<close>

definition doubleToLPSTR :: "rat \<Rightarrow> string outcome" where
  "doubleToLPSTR x =
     (let s = fmt_g x @ [CHR 0x00]
      in if length s < 20 then Inl Out_of_bounds_read else Inr (take 20 s))"

text \<open>The value \<open>PUT\<close> stores for a member; \<open>None\<close> is the \<open>default\<close> of the switch, never reached.\<close>

definition put_value :: "'j jansson \<Rightarrow> 'j \<Rightarrow> as_val outcome" where
  "put_value J value =
     (case json_typeof J value of
        JSON_INTEGER \<Rightarrow> Inr (As_integer (json_integer_value J value))
      | JSON_STRING \<Rightarrow> Inr (As_string (map_option c_str (json_string_value J value)))
      | JSON_REAL \<Rightarrow>
          (case doubleToLPSTR (json_real_value J value) of
             Inl e \<Rightarrow> Inl e
           | Inr cs \<Rightarrow> if CHR 0x00 \<in> set cs then Inr (As_string (Some (c_str cs))) else Inl Out_of_bounds_read)
      | JSON_NULL \<Rightarrow> Inr As_nil
      | JSON_TRUE \<Rightarrow> Inr (As_integer 1)
      | JSON_FALSE \<Rightarrow> Inr (As_integer 0)
      | JSON_OBJECT \<Rightarrow>
          (case json_dumps J value [] of
             None \<Rightarrow> Inl Null_dereference
           | Some t \<Rightarrow> Inr (As_bytes (c_str t @ [CHR 0x00])))
      | JSON_ARRAY \<Rightarrow>
          (case json_dumps J value [] of
             None \<Rightarrow> Inl Null_dereference
           | Some t \<Rightarrow> Inr (As_bytes (c_str t @ [CHR 0x00]))))"

fun put_bins ::
  "'w aerospike \<Rightarrow> 'j jansson \<Rightarrow> (string \<times> 'j) list \<Rightarrow> as_record \<Rightarrow> nat \<Rightarrow> (as_record \<times> nat) outcome" where
  "put_bins A J [] rec recCount = Inr (rec, recCount)"
| "put_bins A J ((name, value) # rest) rec recCount =
     (case put_value J value of
        Inl e \<Rightarrow> Inl e
      | Inr v \<Rightarrow> put_bins A J rest (as_record_set A rec name v) (recCount + 1))"

section \<open>The operations on a record\<close>

type_synonym ('j, 'w) get_result = "int \<times> as_object \<times> 'j \<times> int \<times> int \<times> 'w"

definition GET ::
  "'w aerospike \<Rightarrow> 'j jansson \<Rightarrow> 'z zlib \<Rightarrow> (nat \<Rightarrow> bool) \<Rightarrow> as_object \<Rightarrow> string \<Rightarrow> string \<Rightarrow> string \<Rightarrow>
     'j \<Rightarrow> int \<Rightarrow> int \<Rightarrow> 'w \<Rightarrow> ('j, 'w) get_result outcome" where
  "GET A J Z realloc x ns s userid obj ttl0 gen0 w =
     (if \<not> isalive x then Inr (-1, x, obj, ttl0, gen0, w)
      else
        (let (status, err, rec, w') = aerospike_key_get A (as_cfg x) (as_key_init ns s userid) w;
             x' = x\<lparr>as_err := err\<rparr>
         in if status \<noteq> AEROSPIKE_OK A then Inr (status, x', obj, ttl0, gen0, w')
            else
              (case data_convert_to_json_v1 J Z realloc (bins rec) obj of
                 Inl e \<Rightarrow> Inl e
               | Inr obj' \<Rightarrow> Inr (status, x', obj', ttl rec, gen rec, w'))))"

definition PUT ::
  "'w aerospike \<Rightarrow> 'j jansson \<Rightarrow> as_object \<Rightarrow> string \<Rightarrow> string \<Rightarrow> string \<Rightarrow> 'j \<Rightarrow> int \<Rightarrow> 'w \<Rightarrow>
     (int \<times> as_object \<times> 'w) outcome" where
  "PUT A J x ns s userid json_load ttl0 w =
     (if \<not> isalive x then Inr (-1, x, w)
      else if json_object_size J json_load = 0 then Inr (0, x, w)
      else
        (let rec0 = \<lparr>bins = [], gen = 0, ttl = 0\<rparr>;
             rec1 = (if ttl0 \<noteq> 0 then rec0\<lparr>ttl := ttl0\<rparr> else rec0);
             x1 = x\<lparr>as_err := AEROSPIKE_OK A\<rparr>
         in case put_bins A J (json_object_items J json_load) rec1 0 of
              Inl e \<Rightarrow> Inl e
            | Inr (rec, recCount) \<Rightarrow>
                if recCount \<noteq> 0 then
                  (let (status, err, w') =
                     aerospike_key_put A (as_cfg x) (as_key_init ns s userid) rec w
                   in Inr (status, x1\<lparr>as_err := err\<rparr>, w'))
                else Inr (AEROSPIKE_ERR_QUERY A, x1, w)))"

definition REMOVE ::
  "'w aerospike \<Rightarrow> as_object \<Rightarrow> string \<Rightarrow> string \<Rightarrow> string \<Rightarrow> 'w \<Rightarrow> int \<times> as_object \<times> 'w" where
  "REMOVE A x ns s userid w =
     (if \<not> isalive x then (-1, x, w)
      else
        (let (status, err, w') = aerospike_key_remove A (as_cfg x) (as_key_init ns s userid) w
         in (status, x\<lparr>as_err := err\<rparr>, w')))"

section \<open>Lemmas\<close>

lemma gzdecode_no_fault: "\<exists>res. gzdecode Z (\<lambda>_. True) (b @ [CHR 0x00]) (length b) = Inr res"
  by (auto simp: gzdecode_def split: option.split prod.split)

lemma convert_string_no_fault: "\<exists>res. convert_string J Z (\<lambda>_. True) s = Inr res"
  using gzdecode_no_fault [of Z "base64Decode s"]
  by (auto simp: convert_string_def Let_def split: option.split)

definition terminated :: "as_val \<Rightarrow> bool" where
  "terminated v = (case v of As_bytes b \<Rightarrow> b \<noteq> [] \<longrightarrow> CHR 0x00 \<in> set b | _ \<Rightarrow> True)"

lemma convert_bin_no_fault:
  "terminated v \<Longrightarrow> \<exists>res. convert_bin J Z (\<lambda>_. True) (name, v) obj = Inr res"
proof (cases v)
  case (As_string s)
  obtain res where "convert_string J Z (\<lambda>_. True) (as_string_to_byte s) = Inr res"
    using convert_string_no_fault [of J Z "as_string_to_byte s"] by blast
  then show ?thesis by (simp add: convert_bin_def As_string Let_def)
next
  case (As_bytes b)
  assume "terminated v"
  then show ?thesis by (simp add: convert_bin_def As_bytes terminated_def loads_buffer_def Let_def)
qed (simp_all add: convert_bin_def Let_def)

lemma convert_no_fault:
  "list_all (\<lambda>(n, v). terminated v) bs \<Longrightarrow> \<exists>res. data_convert_to_json_v1 J Z (\<lambda>_. True) bs obj = Inr res"
proof (induction bs arbitrary: obj)
  case Nil
  show ?case by simp
next
  case (Cons b bs)
  obtain n v where b: "b = (n, v)" by (cases b)
  then obtain obj' where "convert_bin J Z (\<lambda>_. True) b obj = Inr obj'"
    using Cons.prems convert_bin_no_fault [of v J Z n obj] by auto
  with Cons show ?case by simp
qed

lemma put_value_terminated: "put_value J v = Inr b \<Longrightarrow> terminated b"
  by (auto simp: put_value_def terminated_def split: json_type.splits option.splits sum.splits if_splits)

text \<open>
  A member that survives being stored: an integer jansson rebuilds from its value, or an object or
  array jansson reads back from its own text.
\<close>

definition storable :: "'j jansson \<Rightarrow> 'j \<Rightarrow> bool" where
  "storable J v \<longleftrightarrow>
     (json_typeof J v = JSON_INTEGER \<and> json_integer J (json_integer_value J v) = Some v) \<or>
     (json_typeof J v \<in> {JSON_OBJECT, JSON_ARRAY} \<and>
      (\<exists>t. json_dumps J v [] = Some t \<and> CHR 0x00 \<notin> set t \<and> json_loads J t = Some v))"

text \<open>What a member comes back as: \<open>PUT\<close> stores a boolean as an integer, an object or an array as its text.\<close>

definition comes_back :: "'j jansson \<Rightarrow> 'j \<Rightarrow> 'j \<Rightarrow> bool" where
  "comes_back J v v' \<longleftrightarrow>
     (json_typeof J v = JSON_INTEGER \<and> json_integer J (json_integer_value J v) = Some v') \<or>
     (json_typeof J v = JSON_TRUE \<and> json_integer J 1 = Some v') \<or>
     (json_typeof J v = JSON_FALSE \<and> json_integer J 0 = Some v') \<or>
     (json_typeof J v \<in> {JSON_OBJECT, JSON_ARRAY} \<and>
      (\<exists>t. json_dumps J v [] = Some t \<and> CHR 0x00 \<notin> set t \<and> json_loads J t = Some v'))"

lemma storable_comes_back: "storable J v \<Longrightarrow> comes_back J v v"
  by (auto simp: storable_def comes_back_def)

lemma comes_back_round_trip:
  assumes "comes_back J v v'"
  shows "\<exists>b. put_value J v = Inr b \<and> b \<noteq> As_nil \<and>
    (\<forall>name obj. name \<noteq> [] \<longrightarrow>
       convert_bin J Z realloc (name, b) obj = Inr (json_object_set_new_nocheck J obj name (Some v')))"
  using assms
  by (auto simp: comes_back_def put_value_def convert_bin_def loads_buffer_def c_str_plain
      c_str_append_zero)

definition back_member :: "'j jansson \<Rightarrow> string \<times> 'j \<Rightarrow> string \<times> 'j \<Rightarrow> bool" where
  "back_member J kv kv' \<longleftrightarrow> fst kv' = fst kv \<and> fst kv \<noteq> [] \<and> comes_back J (snd kv) (snd kv')"

lemma storable_back:
  "\<forall>(n, v) \<in> set kvs. n \<noteq> [] \<and> storable J v \<Longrightarrow> list_all2 (back_member J) kvs kvs"
  by (auto simp: list_all2_same back_member_def storable_comes_back)

lemma back_names: "list_all2 (back_member J) kvs kvs' \<Longrightarrow> map fst kvs' = map fst kvs"
  by (induction rule: list_all2_induct) (simp_all add: back_member_def)

text \<open>\<open>as_record_set\<close> on a name the record does not have yet appends a bin.\<close>

definition record_set_appends :: "'w aerospike \<Rightarrow> bool" where
  "record_set_appends A \<longleftrightarrow>
     (\<forall>rec name v. name \<notin> fst ` set (bins rec) \<longrightarrow>
        as_record_set A rec name v = rec\<lparr>bins := bins rec @ [(name, v)]\<rparr>)"

lemma put_bins_back:
  assumes "record_set_appends A" and "list_all2 (back_member J) kvs kvs'"
    and "distinct (map fst kvs)" and "fst ` set kvs \<inter> fst ` set (bins rec) = {}"
  shows "\<exists>bs. put_bins A J kvs rec n = Inr (rec\<lparr>bins := bins rec @ bs\<rparr>, n + length kvs) \<and>
    list_all (\<lambda>(k, b). b \<noteq> As_nil) bs \<and>
    (\<forall>obj. data_convert_to_json_v1 J Z realloc bs obj =
       Inr (foldl (\<lambda>x (k, v). json_object_set_new_nocheck J x k (Some v)) obj kvs'))"
  using assms(2-4)
proof (induction kvs kvs' arbitrary: rec n rule: list_all2_induct)
  case Nil
  then show ?case by (intro exI [of _ "[]"]) simp
next
  case (Cons kv kvs kv' kvs')
  obtain k v v' where kv: "kv = (k, v)" "kv' = (k, v')" "k \<noteq> []" "comes_back J v v'"
    using Cons.hyps(1) by (cases kv, cases kv') (auto simp: back_member_def)
  obtain b where b: "put_value J v = Inr b" "b \<noteq> As_nil"
    "\<And>name obj. name \<noteq> [] \<Longrightarrow>
       convert_bin J Z realloc (name, b) obj = Inr (json_object_set_new_nocheck J obj name (Some v'))"
    using comes_back_round_trip [OF kv(4), of Z realloc] by auto
  let ?rec = "rec\<lparr>bins := bins rec @ [(k, b)]\<rparr>"
  have set: "as_record_set A rec k b = ?rec"
    using assms(1) Cons.prems(2) kv by (auto simp: record_set_appends_def)
  obtain bs where bs: "put_bins A J kvs ?rec (n + 1) = Inr (?rec\<lparr>bins := bins ?rec @ bs\<rparr>, n + 1 + length kvs)"
    "list_all (\<lambda>(k, b). b \<noteq> As_nil) bs"
    "\<And>obj. data_convert_to_json_v1 J Z realloc bs obj =
       Inr (foldl (\<lambda>x (k, v). json_object_set_new_nocheck J x k (Some v)) obj kvs')"
    using Cons.IH [of ?rec "n + 1"] Cons.prems kv by auto
  show ?case
    using kv b bs set by (intro exI [of _ "(k, b) # bs"]) simp
qed

lemma foldl_update_items:
  assumes "jansson_contract J" and "distinct (map fst kvs)"
    and "fst ` set kvs \<inter> fst ` set (json_object_items J obj) = {}"
  shows "json_object_items J (foldl (\<lambda>x (k, v). json_object_set_new_nocheck J x k (Some v)) obj kvs) =
    json_object_items J obj @ kvs"
  using assms(2,3)
proof (induction kvs arbitrary: obj)
  case Nil
  then show ?case by simp
next
  case (Cons kv kvs)
  obtain k v where kv: "kv = (k, v)" by (cases kv)
  have upd: "AList.update k v xs = xs @ [(k, v)]" if "k \<notin> fst ` set xs" for xs :: "(string \<times> 'a) list"
    using that by (induction xs) auto
  have "json_object_items J (json_object_set_new_nocheck J obj k (Some v)) =
      json_object_items J obj @ [(k, v)]"
    using Cons.prems(2) kv by (simp add: jansson_contractD(2) [OF assms(1)] upd)
  then show ?case
    using Cons.IH [of "json_object_set_new_nocheck J obj k (Some v)"] Cons.prems kv by auto
qed

text \<open>
  What the client library documents of a put and the next get of the same key. Storing nil in a bin
  removes the bin, so the law is about records without one.
\<close>

definition store_law :: "'w aerospike \<Rightarrow> bool" where
  "store_law A \<longleftrightarrow>
     (\<forall>cfg cfg' key rec w err w'. aerospike_key_put A cfg key rec w = (AEROSPIKE_OK A, err, w') \<and>
        list_all (\<lambda>(n, v). v \<noteq> As_nil) (bins rec) \<longrightarrow>
        (\<exists>err' rec' w''. aerospike_key_get A cfg' key w' = (AEROSPIKE_OK A, err', rec', w'') \<and>
           bins rec' = bins rec))"

lemma put_get_back:
  assumes "jansson_contract J" and "record_set_appends A" and "store_law A"
    and "isalive x" and "isalive y"
    and "json_object_items J j \<noteq> []" and "distinct (map fst (json_object_items J j))"
    and "list_all2 (back_member J) (json_object_items J j) kvs"
    and "PUT A J x ns s k j t w = Inr (AEROSPIKE_OK A, x', w')"
    and "AEROSPIKE_OK A \<noteq> AEROSPIKE_ERR_QUERY A"
  shows "\<exists>y' j' t' g' w''.
    GET A J Z realloc y ns s k (json_object J) 0 0 w' = Inr (AEROSPIKE_OK A, y', j', t', g', w'') \<and>
    json_object_items J j' = kvs"
proof -
  define rec0 where "rec0 = (if t \<noteq> 0 then \<lparr>bins = [], gen = 0, ttl = t\<rparr> else \<lparr>bins = [], gen = 0, ttl = 0\<rparr>)"
  have r0: "bins rec0 = []" by (simp add: rec0_def)
  obtain bs where bs: "put_bins A J (json_object_items J j) rec0 0 =
      Inr (rec0\<lparr>bins := bs\<rparr>, length (json_object_items J j))" "list_all (\<lambda>(k, b). b \<noteq> As_nil) bs"
    "\<And>obj. data_convert_to_json_v1 J Z realloc bs obj =
       Inr (foldl (\<lambda>x (k, v). json_object_set_new_nocheck J x k (Some v)) obj kvs)"
    using put_bins_back [OF assms(2,8,7), of rec0 0 Z realloc] r0 by auto
  obtain err where put: "aerospike_key_put A (as_cfg x) (as_key_init ns s k) (rec0\<lparr>bins := bs\<rparr>) w =
      (AEROSPIKE_OK A, err, w')"
    using assms(4,6,9) bs(1)
    by (auto simp: PUT_def json_object_size_def rec0_def Let_def split: prod.splits if_splits)
  then obtain err' rec' w'' where "aerospike_key_get A (as_cfg y) (as_key_init ns s k) w' =
      (AEROSPIKE_OK A, err', rec', w'')" "bins rec' = bs"
    using assms(3) bs(2) by (fastforce simp: store_law_def)
  then show ?thesis
    using assms(5,7) bs(3) [of "json_object J"] jansson_contractD(1) [OF assms(1)]
      foldl_update_items [OF assms(1), of kvs "json_object J"] back_names [OF assms(8)]
    by (simp add: GET_def)
qed

lemma put_get_members:
  assumes "jansson_contract J" and "record_set_appends A" and "store_law A"
    and "isalive x" and "isalive y"
    and "json_object_items J j \<noteq> []" and "distinct (map fst (json_object_items J j))"
    and "\<forall>(n, v) \<in> set (json_object_items J j). n \<noteq> [] \<and> storable J v"
    and "PUT A J x ns s k j t w = Inr (AEROSPIKE_OK A, x', w')"
    and "AEROSPIKE_OK A \<noteq> AEROSPIKE_ERR_QUERY A"
  shows "\<exists>y' j' t' g' w''.
    GET A J Z realloc y ns s k (json_object J) 0 0 w' = Inr (AEROSPIKE_OK A, y', j', t', g', w'') \<and>
    json_object_items J j' = json_object_items J j"
  by (rule put_get_back [OF assms(1-7) storable_back [OF assms(8)] assms(9,10)])

text \<open>The types jansson documents of a new integer and of a text read back.\<close>

definition jansson_types :: "'j jansson \<Rightarrow> bool" where
  "jansson_types J \<longleftrightarrow>
     (\<forall>i v. json_integer J i = Some v \<longrightarrow> json_typeof J v = JSON_INTEGER \<and> json_integer_value J v = i) \<and>
     (\<forall>v t v'. json_typeof J v \<in> {JSON_OBJECT, JSON_ARRAY} \<and> json_dumps J v [] = Some t \<and>
        json_loads J t = Some v' \<longrightarrow> json_typeof J v' = json_typeof J v)"

fun fetched_type :: "json_type \<Rightarrow> json_type" where
  "fetched_type JSON_TRUE = JSON_INTEGER"
| "fetched_type JSON_FALSE = JSON_INTEGER"
| "fetched_type t = t"

lemma jansson_typesD:
  assumes "jansson_types J"
  shows "json_integer J i = Some v \<Longrightarrow> json_typeof J v = JSON_INTEGER"
    and "json_integer J i = Some v \<Longrightarrow> json_integer_value J v = i"
    and "json_typeof J v \<in> {JSON_OBJECT, JSON_ARRAY} \<Longrightarrow> json_dumps J v [] = Some t \<Longrightarrow>
      json_loads J t = Some v' \<Longrightarrow> json_typeof J v' = json_typeof J v"
  using assms unfolding jansson_types_def by blast+

lemma comes_back_type:
  assumes "jansson_types J" and "comes_back J v v'"
  shows "json_typeof J v' = fetched_type (json_typeof J v)"
  using assms(2) jansson_typesD(1) [OF assms(1), of _ v'] jansson_typesD(3) [OF assms(1), of v _ v']
  by (cases "json_typeof J v") (auto simp: comes_back_def)

lemma comes_back_bool:
  assumes "jansson_types J" and "comes_back J v v'"
  shows "json_typeof J v = JSON_TRUE \<Longrightarrow> json_integer_value J v' = 1"
    and "json_typeof J v = JSON_FALSE \<Longrightarrow> json_integer_value J v' = 0"
  using assms(2) jansson_typesD(2) [OF assms(1), of _ v'] by (simp_all add: comes_back_def)

lemma back_types:
  assumes "jansson_types J" and "list_all2 (back_member J) kvs kvs'"
  shows "map (\<lambda>(n, v). (n, json_typeof J v)) kvs' = map (\<lambda>(n, v). (n, fetched_type (json_typeof J v))) kvs"
  using assms(2)
  by (induction rule: list_all2_induct)
    (auto simp: back_member_def comes_back_type [OF assms(1)] split: prod.splits)

lemma back_lookup:
  assumes "list_all2 (back_member J) kvs kvs'" and "map_of kvs n = Some v"
  shows "\<exists>v'. map_of kvs' n = Some v' \<and> comes_back J v v'"
  using assms
  by (induction rule: list_all2_induct) (auto simp: back_member_def split: if_splits)

section \<open>Properties\<close>


text \<open>A store of one key for the witnesses.\<close>

definition cell_store :: "as_record option aerospike" where
  "cell_store =
     \<lparr>AEROSPIKE_OK = 0, AEROSPIKE_ERR = 100, AEROSPIKE_ERR_PARAM = 4, AEROSPIKE_ERR_CLIENT = -1,
      AEROSPIKE_ERR_QUERY = 213, AEROSPIKE_ERR_TIMEOUT = 9, AEROSPIKE_ERR_CLUSTER_CHANGE = 7,
      AEROSPIKE_ERR_CLUSTER = 11, AEROSPIKE_ERR_INVALID_HOST = -4,
      as_config_init =
        \<lparr>hosts = [], policies = \<lparr>read_timeout = 1000, apply_timeout = 1000\<rparr>, lua_cache_enabled = True\<rparr>,
      as_config_add_host = (\<lambda>c h p. c\<lparr>hosts := hosts c @ [(h, p)]\<rparr>),
      as_policies_init = (\<lambda>p. \<lparr>read_timeout = 1000, apply_timeout = 1000\<rparr>),
      random_shuffle = (\<lambda>xs w. (xs, w)),
      aerospike_connect = (\<lambda>c w. (0, 0, w)),
      aerospike_key_get =
        (\<lambda>c k w. case w of None \<Rightarrow> (2, 2, \<lparr>bins = [], gen = 0, ttl = 0\<rparr>, w) | Some r \<Rightarrow> (0, 0, r, w)),
      aerospike_key_put = (\<lambda>c k r w. (0, 0, Some r)),
      aerospike_key_remove = (\<lambda>c k w. (0, 0, None)),
      as_record_set = (\<lambda>r n v. r\<lparr>bins := AList.update n v (bins r)\<rparr>),
      as_error_string = (\<lambda>e. ''AEROSPIKE''),
      aerospike_close = (\<lambda>c w. (0, 0, w)), aerospike_destroy = (\<lambda>c w. w)\<rparr>"

lemma cell_store_laws: "record_set_appends cell_store" "store_law cell_store"
proof -
  have upd: "AList.update k v xs = xs @ [(k, v)]" if "k \<notin> fst ` set xs"
    for xs :: "(string \<times> as_val) list" and k v
    using that by (induction xs) auto
  show "record_set_appends cell_store"
    by (simp add: record_set_appends_def cell_store_def upd)
  show "store_law cell_store"
    by (auto simp: store_law_def cell_store_def)
qed

definition sample_object :: as_object where
  "sample_object = \<lparr>isalive = True, as_err = 0, as_cfg = as_config_init cell_store\<rparr>"



lemma jref_types: "jansson_types jref_lib"
proof -
  have "jref_type v \<noteq> JSON_ARRAY" if "jref_text v = ''{}''" for v
    using that by (cases v) simp_all
  then show ?thesis by (auto simp: jansson_types_def jref_lib_def split: if_splits)
qed


text \<open>
  \<open>GET\<close> touches no memory out of bounds on any record whose byte bins end with a zero, as those
  \<open>PUT\<close> stores do, whatever zlib and jansson make of the contents.
\<close>

theorem GET_no_fault:
  assumes "aerospike_key_get A (as_cfg x) (as_key_init ns s k) w = (st, err, rec, w')"
    and "list_all (\<lambda>(n, v). terminated v) (bins rec)"
  shows "\<exists>res. GET A J Z (\<lambda>_. True) x ns s k obj t g w = Inr res"
  using assms convert_no_fault [of "bins rec" J Z obj] by (auto simp: GET_def Let_def)

lemma GET_no_fault_witness:
  "\<exists>res. GET cell_store jref_lib (const_zlib []) (\<lambda>_. True) sample_object ''ns'' ''set'' ''k'' (Obj []) 0 0
     (Some \<lparr>bins = [(''tags'', As_bytes (''{}'' @ [CHR 0x00]))], gen = 0, ttl = 0\<rparr>) = Inr res"
  by (rule GET_no_fault) (simp add: cell_store_def, simp add: terminated_def)

text \<open>A zlib that finds no deflated data, and a jansson that reads no text.\<close>

definition no_zlib :: "unit zlib" where
  "no_zlib = (const_zlib [])\<lparr>inflate := (\<lambda>z i cap. (-3, [], ()))\<rparr>"

lemma gzdecode_no_zlib: "gzdecode no_zlib (\<lambda>_. True) (b @ [CHR 0x00]) (length b) = Inr None"
  by (subst gzdecode_def, subst gz_loop.simps)
    (simp add: gz_attempt_def no_zlib_def const_zlib_def)



text \<open>
  Storing a real number reads past the end of its text: \<open>doubleToLPSTR\<close> copies 20 characters
  of a text that has at most 13.
\<close>

theorem put_real_out_of_bounds:
  assumes "json_typeof J v = JSON_REAL" and "\<bar>json_real_value J v\<bar> < 10 ^ 400"
  shows "put_value J v = Inl Out_of_bounds_read"
  using assms fmt_g_length [OF assms(2)] by (simp add: put_value_def doubleToLPSTR_def)

lemma put_real_out_of_bounds_witness: "put_value jref_lib (Real (3 / 2)) = Inl Out_of_bounds_read"
  using put_real_out_of_bounds [of jref_lib "Real (3 / 2)"] by (simp add: jref_lib_def)

text \<open>
  The timeout the constructor is given has no effect when \<open>as_policies_init\<close>, which it calls
  after storing the timeout in the policies, initialises them whatever they held before.
\<close>

theorem timeout_discarded:
  assumes "\<And>p q. as_policies_init A p = as_policies_init A q"
  shows "AS_OBJECT_new A servers port t w = AS_OBJECT_new A servers port t' w"
proof -
  have "object_config A ss port t = object_config A ss port t'" for ss
    using assms by (simp add: object_config_def Let_def)
  then show ?thesis by (simp add: AS_OBJECT_new_def)
qed

lemma timeout_discarded_witness:
  "AS_OBJECT_new cell_store [''h''] 3000 20 None = AS_OBJECT_new cell_store [''h''] 3000 500 None"
  by (rule timeout_discarded) (simp add: cell_store_def)
end
