(* ===== verification/Ini.thy ===== *)
theory Ini
  imports Prelude
begin

text \<open>
  \<open>include/ini.h\<close> and \<open>src/ini.c\<close>: the INI parser. A C string inside the line buffer is the list of
  its characters before the terminating zero; a pointer into the buffer is the rest of the string
  it points to, so \<open>find_char_or_comment\<close> gives the text before the pointer and the text at it. The
  parser reads the file with \<open>fgets\<close> in pieces of at most 199 characters and hands every pair to a
  callback, which is a function on a state of its own here; the locale states what the parser's
  verdict relies on of it. The three switches of \<open>ini.h\<close> have their default values: multi-line
  values and the byte order mark are allowed, the line buffer is on the stack.
\<close>

section \<open>Strings\<close>

definition newline :: char where
  "newline = CHR 0x0A"

definition rstrip :: "string \<Rightarrow> string" where
  "rstrip s = rev (dropWhile isspace (rev s))"

definition lskip :: "string \<Rightarrow> string" where
  "lskip s = dropWhile isspace s"

fun find_char_loop :: "bool \<Rightarrow> string \<Rightarrow> char \<Rightarrow> string \<times> string" where
  "find_char_loop was_whitespace [] c = ([], [])"
| "find_char_loop was_whitespace (x # xs) c =
     (if x \<noteq> c \<and> \<not> (was_whitespace \<and> x = CHR '';'')
      then (let (before, at) = find_char_loop (isspace x) xs c in (x # before, at))
      else ([], x # xs))"

definition find_char_or_comment :: "string \<Rightarrow> char \<Rightarrow> string \<times> string" where
  "find_char_or_comment s c = find_char_loop False s c"

definition strncpy0 :: "string \<Rightarrow> nat \<Rightarrow> string" where
  "strncpy0 src n = take (n - 1) src"

text \<open>\<open>*p\<close> of a C string: the zero at its end.\<close>

definition char_at :: "string \<Rightarrow> char" where
  "char_at s = (case s of [] \<Rightarrow> CHR 0x00 | c # _ \<Rightarrow> c)"

text \<open>\<open>fgets\<close> with room for \<open>n\<close> characters: what it stores and the rest of the file.\<close>

fun fgets :: "nat \<Rightarrow> string \<Rightarrow> string \<times> string" where
  "fgets 0 s = ([], s)"
| "fgets (Suc n) [] = ([], [])"
| "fgets (Suc n) (c # cs) =
     (if c = newline then ([c], cs) else (let (l, rest) = fgets n cs in (c # l, rest)))"

definition INI_MAX_LINE :: nat where
  "INI_MAX_LINE = 200"

definition MAX_SECTION :: nat where
  "MAX_SECTION = 50"

definition MAX_NAME :: nat where
  "MAX_NAME = 50"

section \<open>The parser\<close>

type_synonym 'u handler = "'u \<Rightarrow> string \<Rightarrow> string \<Rightarrow> string \<Rightarrow> bool \<times> 'u"

record 'u ini_state =
  sect :: string
  prev_name :: string
  lineno :: int
  err :: int
  user :: 'u

definition set_error :: "'u ini_state \<Rightarrow> 'u ini_state" where
  "set_error st = (if err st = 0 then st\<lparr>err := lineno st\<rparr> else st)"

definition call_handler :: "'u handler \<Rightarrow> 'u ini_state \<Rightarrow> string \<Rightarrow> string \<Rightarrow> 'u ini_state" where
  "call_handler handler st name value =
     (let (ok, u) = handler (user st) (sect st) name value;
          st' = st\<lparr>user := u\<rparr>
      in if \<not> ok then set_error st' else st')"

definition section_line :: "'u ini_state \<Rightarrow> string \<Rightarrow> 'u ini_state" where
  "section_line st start =
     (let (before, at) = find_char_or_comment (tl start) (CHR '']'')
      in if char_at at = CHR '']''
         then st\<lparr>sect := strncpy0 before MAX_SECTION, prev_name := []\<rparr>
         else set_error st)"

text \<open>The value after \<open>=\<close> or \<open>:\<close>, without white space around it and a comment behind it.\<close>

definition pair_value :: "string \<Rightarrow> string" where
  "pair_value s =
     (let value = lskip s; (before, at) = find_char_or_comment value (CHR 0x00)
      in rstrip (if char_at at = CHR '';'' then before else value))"

definition pair_line :: "'u handler \<Rightarrow> 'u ini_state \<Rightarrow> string \<Rightarrow> 'u ini_state" where
  "pair_line handler st start =
     (let (b1, a1) = find_char_or_comment start (CHR ''='');
          (before, at) =
            (if char_at a1 \<noteq> CHR ''='' then find_char_or_comment start (CHR '':'') else (b1, a1))
      in if char_at at = CHR ''='' \<or> char_at at = CHR '':'' then
           (let name = rstrip before; value = pair_value (tl at)
            in call_handler handler (st\<lparr>prev_name := strncpy0 name MAX_NAME\<rparr>) name value)
         else set_error st)"

text \<open>One iteration of the loop, on what \<open>fgets\<close> stored in the line buffer.\<close>

definition BOM :: string where
  "BOM = [CHR 0xEF, CHR 0xBB, CHR 0xBF]"

definition ini_line :: "'u handler \<Rightarrow> 'u ini_state \<Rightarrow> string \<Rightarrow> 'u ini_state" where
  "ini_line handler st0 buffer =
     (let st = st0\<lparr>lineno := lineno st0 + 1\<rparr>;
          line = c_str buffer;
          bom = (lineno st = 1 \<and> take 3 line = BOM);
          stripped = rstrip (if bom then drop 3 line else line);
          start = lskip stripped
      in if char_at start = CHR '';'' \<or> char_at start = CHR ''#'' then st
         else if prev_name st \<noteq> [] \<and> start \<noteq> [] \<and> (bom \<or> length start < length stripped)
         then call_handler handler st (prev_name st) start
         else if char_at start = CHR ''['' then section_line st start
         else if start \<noteq> [] then pair_line handler st start
         else st)"

lemma fgets_append: "fst (fgets n s) @ snd (fgets n s) = s"
  by (induction n s rule: fgets.induct) (auto split: prod.splits)

lemma fgets_progress: "s \<noteq> [] \<Longrightarrow> length (snd (fgets (Suc n) s)) < length s"
proof (induction s arbitrary: n)
  case Nil
  then show ?case by simp
next
  case (Cons c cs)
  have "length (snd (fgets n cs)) \<le> length cs"
    using arg_cong [OF fgets_append [of n cs], of length] by simp
  then show ?case by (auto split: prod.splits)
qed

function ini_loop :: "'u handler \<Rightarrow> 'u ini_state \<Rightarrow> string \<Rightarrow> 'u ini_state" where
  "ini_loop handler st file =
     (if file = [] then st
      else (let (buffer, rest) = fgets (INI_MAX_LINE - 1) file
            in ini_loop handler (ini_line handler st buffer) rest))"
  by pat_completeness auto
termination
proof (relation "measure (\<lambda>(h, st, file). length file)", simp)
  fix f p x y and st :: "'u ini_state" and h :: "'u handler"
  assume f: "f \<noteq> []" and x: "p = fgets (INI_MAX_LINE - 1) f" "(x, y) = p"
  have "length (snd (fgets (Suc 198) f)) < length f"
    using f by (rule fgets_progress)
  moreover have "Suc 198 = INI_MAX_LINE - 1" by (simp add: INI_MAX_LINE_def)
  ultimately show "((h, ini_line h st x, y), h, st, f) \<in> measure (\<lambda>(h, st, file). length file)"
    using x by (metis in_measure prod.case snd_conv)
qed

declare ini_loop.simps [simp del]

definition ini_start :: "'u \<Rightarrow> 'u ini_state" where
  "ini_start u = \<lparr>sect = [], prev_name = [], lineno = 0, err = 0, user = u\<rparr>"

definition ini_parse_file :: "string \<Rightarrow> 'u handler \<Rightarrow> 'u \<Rightarrow> int \<times> 'u" where
  "ini_parse_file file handler u =
     (let st = ini_loop handler (ini_start u) file in (err st, user st))"

text \<open>\<open>None\<close>: the file cannot be opened.\<close>

definition ini_parse :: "string option \<Rightarrow> 'u handler \<Rightarrow> 'u \<Rightarrow> int \<times> 'u" where
  "ini_parse file handler u =
     (case file of None \<Rightarrow> (-1, u) | Some text \<Rightarrow> ini_parse_file text handler u)"

section \<open>Reading lines\<close>

lemma fgets_line:
  "newline \<notin> set l \<Longrightarrow> length l < n \<Longrightarrow> fgets n (l @ newline # rest) = (l @ [newline], rest)"
proof (induction l arbitrary: n)
  case Nil
  then show ?case by (cases n) simp_all
next
  case (Cons c cs)
  then show ?case by (cases n) auto
qed

lemma fgets_whole_lines:
  "a \<noteq> [] \<Longrightarrow> last a = newline \<Longrightarrow> fgets n (a @ b) = (fst (fgets n a), snd (fgets n a) @ b) \<and>
     (snd (fgets n a) = [] \<or> last (snd (fgets n a)) = newline)"
proof (induction n a rule: fgets.induct)
  case (3 n c cs)
  show ?case
  proof (cases "c = newline \<or> cs = []")
    case True
    with 3 show ?thesis by (cases n) (auto split: if_splits)
  next
    case False
    with "3.IH" "3.prems" show ?thesis by (cases "fgets n cs") auto
  qed
qed auto

lemma ini_loop_nil [simp]: "ini_loop h st [] = st"
  by (subst ini_loop.simps) simp

lemma ini_loop_append:
  "a = [] \<or> last a = newline \<Longrightarrow> ini_loop h st (a @ b) = ini_loop h (ini_loop h st a) b"
proof (induction h st a rule: ini_loop.induct)
  case (1 h st a)
  show ?case
  proof (cases "a = []")
    case True
    then show ?thesis by simp
  next
    case False
    obtain buffer rest where f: "fgets (INI_MAX_LINE - 1) a = (buffer, rest)" by fastforce
    with fgets_whole_lines [OF False, of "INI_MAX_LINE - 1" b] "1.prems" False
    have "fgets (INI_MAX_LINE - 1) (a @ b) = (buffer, rest @ b)" "rest = [] \<or> last rest = newline"
      by auto
    moreover have "ini_loop h st a = ini_loop h (ini_line h st buffer) rest"
      using False f by (subst ini_loop.simps) simp
    moreover have "ini_loop h st (a @ b) = ini_loop h (ini_line h st buffer) (rest @ b)"
      using False calculation(1) by (subst ini_loop.simps) simp
    ultimately show ?thesis using "1.IH" [OF False f [symmetric] refl] by simp
  qed
qed

lemma ini_loop_line:
  assumes "newline \<notin> set l" and "length l < 199"
  shows "ini_loop h st (l @ newline # rest) = ini_loop h (ini_line h st (l @ [newline])) rest"
  using fgets_line [OF assms(1), of 199 rest] assms(2)
  by (subst ini_loop.simps) (simp add: INI_MAX_LINE_def)

section \<open>Errors\<close>

lemma err_set_error: "err (set_error st) = (if err st = 0 then lineno st else err st)"
  by (simp add: set_error_def)

lemma err_call_handler: "err st \<noteq> 0 \<Longrightarrow> err (call_handler h st n v) = err st"
  by (auto simp: call_handler_def err_set_error Let_def split: prod.split)

lemma err_ini_line: "err st \<noteq> 0 \<Longrightarrow> err (ini_line h st b) = err st"
  by (auto simp: ini_line_def section_line_def pair_line_def Let_def err_set_error err_call_handler
      split: prod.split)

lemma err_ini_loop: "err st \<noteq> 0 \<Longrightarrow> err (ini_loop h st f) = err st"
proof (induction h st f rule: ini_loop.induct)
  case (1 h st f)
  then show ?case by (subst ini_loop.simps) (auto simp: err_ini_line split: prod.split)
qed

section \<open>Well-formed lines\<close>

lemma isspace_newline [simp]: "isspace newline"
  by (simp add: isspace_def newline_def)

lemma isspace_blank [simp]: "isspace (CHR '' '')"
  by (simp add: isspace_def)

lemma rstrip_snoc_space: "isspace c \<Longrightarrow> rstrip (s @ [c]) = rstrip s"
  by (simp add: rstrip_def)

lemma rstrip_id: "s \<noteq> [] \<Longrightarrow> \<not> isspace (last s) \<Longrightarrow> rstrip s = s"
  by (cases s rule: rev_cases) (simp_all add: rstrip_def)

lemma lskip_id: "s \<noteq> [] \<Longrightarrow> \<not> isspace (hd s) \<Longrightarrow> lskip s = s"
  by (cases s) (simp_all add: lskip_def)

lemma find_char_plain:
  "\<forall>x \<in> set a. x \<noteq> c \<and> x \<noteq> CHR '';'' \<Longrightarrow>
     find_char_loop ws (a @ b) c =
       (a @ fst (find_char_loop (if a = [] then ws else isspace (last a)) b c),
        snd (find_char_loop (if a = [] then ws else isspace (last a)) b c))"
  by (induction a arbitrary: ws) (auto split: prod.split)

text \<open>No comment starts in the text: no semicolon follows white space.\<close>

fun no_comment :: "bool \<Rightarrow> string \<Rightarrow> bool" where
  "no_comment ws [] = True"
| "no_comment ws (x # xs) = (\<not> (ws \<and> x = CHR '';'') \<and> no_comment (isspace x) xs)"

lemma find_char_no_comment:
  "no_comment ws s \<Longrightarrow> c \<notin> set s \<Longrightarrow> find_char_loop ws s c = (s, [])"
  by (induction s arbitrary: ws) auto

definition plain_section :: "string \<Rightarrow> bool" where
  "plain_section s \<longleftrightarrow>
     (\<forall>c \<in> set s. c \<noteq> CHR '']'' \<and> c \<noteq> CHR '';'' \<and> c \<noteq> newline \<and> c \<noteq> CHR 0x00) \<and> length s < 50"

definition plain_name :: "string \<Rightarrow> bool" where
  "plain_name n \<longleftrightarrow>
     n \<noteq> [] \<and>
     (\<forall>c \<in> set n. \<not> isspace c \<and> c \<noteq> CHR ''='' \<and> c \<noteq> CHR '';'' \<and> c \<noteq> CHR ''#'' \<and> c \<noteq> CHR ''['' \<and> c \<noteq> CHR 0x00)"

definition plain_value :: "string \<Rightarrow> bool" where
  "plain_value v \<longleftrightarrow>
     v \<noteq> [] \<and> \<not> isspace (hd v) \<and> \<not> isspace (last v) \<and> newline \<notin> set v \<and> CHR 0x00 \<notin> set v \<and>
     no_comment False v"

lemma char_at_simps [simp]: "char_at [] = CHR 0x00" "char_at (c # cs) = c"
  by (simp_all add: char_at_def)

lemma ini_line_section:
  assumes "plain_section s"
  shows "ini_line h st (''['' @ s @ '']'' @ [newline]) =
    st\<lparr>lineno := lineno st + 1, sect := s, prev_name := []\<rparr>"
proof -
  let ?l = "''['' @ s @ '']''"
  have z: "CHR 0x00 \<notin> set (?l @ [newline])" "length s \<le> 49"
    using assms by (auto simp: plain_section_def newline_def)
  have r: "rstrip (?l @ [newline]) = ?l" "lskip ?l = ?l"
    by (simp_all only: rstrip_snoc_space isspace_newline) (simp_all add: rstrip_id lskip_id isspace_def)
  have f: "find_char_or_comment (s @ '']'') (CHR '']'') = (s, '']'')"
    using assms find_char_plain [of s "CHR '']''" False "'']''"]
    by (simp add: find_char_or_comment_def plain_section_def)
  have b: "take 3 (?l @ [newline]) \<noteq> BOM" by (simp add: BOM_def numeral_3_eq_3)
  show ?thesis
    using z r f b
    by (simp add: ini_line_def c_str_plain section_line_def strncpy0_def MAX_SECTION_def Let_def)
qed

lemma pair_value_plain:
  assumes "plain_value v"
  shows "pair_value ('' '' @ v) = v"
proof -
  have "lskip ('' '' @ v) = v"
    using assms by (cases v) (simp_all add: lskip_def plain_value_def)
  moreover have "find_char_or_comment v (CHR 0x00) = (v, [])"
    using assms find_char_no_comment [of False v "CHR 0x00"]
    by (simp add: find_char_or_comment_def plain_value_def)
  ultimately show ?thesis
    using assms by (simp add: pair_value_def rstrip_id plain_value_def)
qed

lemma ini_line_pair:
  assumes "plain_name n" and "plain_value v" and "0 < lineno st"
  shows "ini_line h st (n @ '' = '' @ v @ [newline]) =
    call_handler h (st\<lparr>lineno := lineno st + 1, prev_name := take 49 n\<rparr>) n v"
proof -
  let ?l = "n @ '' = '' @ v"
  obtain c cs where n: "n = c # cs" using assms(1) by (cases n) (auto simp: plain_name_def)
  have c: "\<not> isspace c" "c \<noteq> CHR '';''" "c \<noteq> CHR ''#''" "c \<noteq> CHR ''[''"
    using assms(1) n by (auto simp: plain_name_def)
  have z: "CHR 0x00 \<notin> set (?l @ [newline])"
    using assms(1,2) by (auto simp: plain_name_def plain_value_def newline_def)
  have r: "rstrip (?l @ [newline]) = ?l"
    using assms(2) by (simp only: rstrip_snoc_space isspace_newline) (simp add: rstrip_id plain_value_def)
  have l: "lskip ?l = ?l" using n c by (simp add: lskip_id)
  have f: "find_char_or_comment ?l (CHR ''='') = (n @ '' '', ''= '' @ v)"
    using assms(1) find_char_plain [of "n @ '' ''" "CHR ''=''" False "''= '' @ v"]
    by (auto simp: find_char_or_comment_def plain_name_def isspace_def)
  have "rstrip (n @ '' '') = n"
    using assms(1) rstrip_snoc_space [of "CHR '' ''" n]
    by (simp add: rstrip_id plain_name_def isspace_def)
  then have p: "pair_line h st' ?l = call_handler h (st'\<lparr>prev_name := take 49 n\<rparr>) n v" for st'
    using f pair_value_plain [OF assms(2)]
    by (simp add: pair_line_def strncpy0_def MAX_NAME_def Let_def)
  have "ini_line h st (?l @ [newline]) = pair_line h (st\<lparr>lineno := lineno st + 1\<rparr>) ?l"
    using z r l c assms(3) by (simp add: ini_line_def c_str_plain Let_def n)
  then show ?thesis using p by simp
qed

text \<open>A continuation line: white space before a text that is no comment.\<close>

lemma ini_line_continuation:
  assumes "plain_value v" and "hd v \<noteq> CHR '';''" and "hd v \<noteq> CHR ''#''" and "0 < lineno st"
    and "prev_name st \<noteq> []"
  shows "ini_line h st ('' '' @ v @ [newline]) =
    call_handler h (st\<lparr>lineno := lineno st + 1\<rparr>) (prev_name st) v"
proof -
  obtain c cs where v: "v = c # cs" using assms(1) by (cases v) (auto simp: plain_value_def)
  have z: "CHR 0x00 \<notin> set (('' '' @ v) @ [newline])"
    using assms(1) by (auto simp: plain_value_def newline_def)
  have r: "rstrip (('' '' @ v) @ [newline]) = '' '' @ v"
    using assms(1) by (simp only: rstrip_snoc_space isspace_newline) (simp add: rstrip_id plain_value_def)
  have l: "lskip ('' '' @ v) = v"
    using assms(1) v by (simp add: lskip_def plain_value_def)
  show ?thesis
    using z r l assms v by (simp add: ini_line_def c_str_plain Let_def)
qed

section \<open>Files\<close>

text \<open>A configuration: the sections in order, each with its pairs, and its text.\<close>

type_synonym ini_conf = "(string \<times> (string \<times> string) list) list"

definition render_pair :: "string \<times> string \<Rightarrow> string" where
  "render_pair p = fst p @ '' = '' @ snd p @ [newline]"

definition render_section :: "string \<times> (string \<times> string) list \<Rightarrow> string" where
  "render_section s = ''['' @ fst s @ '']'' @ [newline] @ concat (map render_pair (snd s))"

definition render_ini :: "ini_conf \<Rightarrow> string" where
  "render_ini conf = concat (map render_section conf)"

definition plain_pair :: "string \<times> string \<Rightarrow> bool" where
  "plain_pair p \<longleftrightarrow> plain_name (fst p) \<and> plain_value (snd p) \<and> length (fst p) + length (snd p) < 196"

definition plain_conf :: "ini_conf \<Rightarrow> bool" where
  "plain_conf conf \<longleftrightarrow> (\<forall>s \<in> set conf. plain_section (fst s) \<and> (\<forall>p \<in> set (snd s). plain_pair p))"

definition conf_triples :: "ini_conf \<Rightarrow> (string \<times> string \<times> string) list" where
  "conf_triples conf = concat (map (\<lambda>(s, ps). map (\<lambda>(n, v). (s, n, v)) ps) conf)"

lemma plain_name_newline: "plain_name n \<Longrightarrow> newline \<notin> set n"
  using isspace_newline unfolding plain_name_def by blast

lemma newline_sep: "newline \<notin> set '' = ''" "newline \<noteq> CHR ''[''" "newline \<noteq> CHR '']''"
  by (simp_all add: newline_def)

definition store_all :: "('u \<Rightarrow> string \<Rightarrow> string \<Rightarrow> string \<Rightarrow> 'u) \<Rightarrow> 'u \<Rightarrow> (string \<times> string \<times> string) list \<Rightarrow> 'u" where
  "store_all f u ts = foldl (\<lambda>u (s, n, v). f u s n v) u ts"

text \<open>
  What the parser relies on of its callback: it accepts every pair. The verdict then depends on
  the text alone.
\<close>

locale accepting_handler =
  fixes handler :: "'u handler"
    and store :: "'u \<Rightarrow> string \<Rightarrow> string \<Rightarrow> string \<Rightarrow> 'u"
  assumes accepts: "handler u s n v = (True, store u s n v)"
begin

lemma call_accepts:
  "call_handler handler st n v = st\<lparr>user := store (user st) (sect st) n v\<rparr>"
  by (simp add: call_handler_def accepts)

lemma pairs_loop:
  assumes "\<forall>p \<in> set ps. plain_pair p" and "0 < lineno st" and "err st = 0"
  shows "\<exists>st'. ini_loop handler st (concat (map render_pair ps) @ rest) = ini_loop handler st' rest \<and>
    err st' = 0 \<and> 0 < lineno st' \<and> sect st' = sect st \<and>
    user st' = store_all store (user st) (map (\<lambda>(n, v). (sect st, n, v)) ps)"
  using assms
proof (induction ps arbitrary: st)
  case Nil
  then show ?case by (auto simp: store_all_def)
next
  case (Cons p ps)
  obtain n v where p: "p = (n, v)" by (cases p)
  have pl: "plain_name n" "plain_value v" "length n + length v < 196"
    using Cons.prems(1) p by (auto simp: plain_pair_def)
  have nl: "newline \<notin> set (n @ '' = '' @ v)"
    using plain_name_newline [OF pl(1)] pl(2) newline_sep by (simp add: plain_value_def)
  let ?st = "st\<lparr>lineno := lineno st + 1, prev_name := take 49 n, user := store (user st) (sect st) n v\<rparr>"
  have "ini_loop handler st (render_pair p @ concat (map render_pair ps) @ rest) =
      ini_loop handler ?st (concat (map render_pair ps) @ rest)"
    using ini_loop_line [OF nl, of handler st "concat (map render_pair ps) @ rest"] pl
      ini_line_pair [OF pl(1,2) Cons.prems(2), of handler]
    by (simp add: p render_pair_def call_accepts)
  then show ?case
    using Cons.IH [of ?st] Cons.prems p by (auto simp: store_all_def)
qed

lemma conf_loop:
  assumes "plain_conf conf" and "0 \<le> lineno st" and "err st = 0"
  shows "\<exists>st'. ini_loop handler st (render_ini conf @ rest) = ini_loop handler st' rest \<and>
    err st' = 0 \<and> user st' = store_all store (user st) (conf_triples conf)"
  using assms
proof (induction conf arbitrary: st)
  case Nil
  then show ?case by (auto simp: store_all_def render_ini_def conf_triples_def)
next
  case (Cons sp conf)
  obtain s ps where sp: "sp = (s, ps)" by (cases sp)
  have pl: "plain_section s" "\<forall>p \<in> set ps. plain_pair p" "plain_conf conf"
    using Cons.prems(1) sp by (auto simp: plain_conf_def)
  have nl: "newline \<notin> set (''['' @ s @ '']'')" "length (''['' @ s @ '']'') < 199"
    using pl(1) newline_sep by (auto simp: plain_section_def)
  let ?st = "st\<lparr>lineno := lineno st + 1, sect := s, prev_name := []\<rparr>"
  let ?rest = "concat (map render_pair ps) @ render_ini conf @ rest"
  have "ini_loop handler st (render_ini (sp # conf) @ rest) = ini_loop handler ?st ?rest"
    using ini_loop_line [OF nl, of handler st ?rest] ini_line_section [OF pl(1), of handler st]
    by (simp add: sp render_ini_def render_section_def)
  moreover obtain st' where "ini_loop handler ?st ?rest = ini_loop handler st' (render_ini conf @ rest)"
    "err st' = 0" "0 < lineno st'" "user st' = store_all store (user st) (map (\<lambda>(n, v). (s, n, v)) ps)"
    using pairs_loop [OF pl(2), of ?st "render_ini conf @ rest"] Cons.prems(2,3) by auto
  ultimately show ?case
    using Cons.IH [OF pl(3), of st'] by (auto simp: sp store_all_def conf_triples_def)
qed

lemma ini_parse_render:
  assumes "plain_conf conf"
  shows "ini_parse_file (render_ini conf) handler u = (0, store_all store u (conf_triples conf))"
  using conf_loop [OF assms, of "ini_start u" "[]"]
  by (auto simp: ini_parse_file_def ini_start_def)

end

section \<open>Properties\<close>

text \<open>
  A file is processed line by line with the state carried over, and the verdict is that of the
  first bad line: when a part that ends with a line end has an error, what follows does not change
  it, and is still handed to the callback.
\<close>

theorem ini_first_error:
  assumes "a \<noteq> []" and "last a = newline"
  shows "ini_loop h st (a @ b) = ini_loop h (ini_loop h st a) b \<and>
    (fst (ini_parse_file a h u) \<noteq> 0 \<longrightarrow> fst (ini_parse_file (a @ b) h u) = fst (ini_parse_file a h u))"
  using ini_loop_append [of a h _ b] assms err_ini_loop [of "ini_loop h (ini_start u) a" h b]
  by (simp add: ini_parse_file_def Let_def)

lemma ini_first_error_witness:
  "fst (ini_parse_file (''broken'' @ [newline] @ ''[also bad'') (\<lambda>u s n v. (True, u)) ()) = 1"
proof -
  have "fst (ini_parse_file (''broken'' @ [newline]) (\<lambda>u s n v. (True, u)) ()) = 1"
    using ini_loop_line [of "''broken''" "\<lambda>u s n v. (True, u)" "ini_start ()" "[]"]
    by (simp add: ini_parse_file_def ini_line_def c_str_def newline_def rstrip_def lskip_def isspace_def
        pair_line_def find_char_or_comment_def set_error_def ini_start_def BOM_def)
  then show ?thesis
    using ini_first_error [of "''broken'' @ [newline]" "\<lambda>u s n v. (True, u)" "ini_start ()" "''[also bad''" "()"]
    by simp
qed

end
