(* ===== verification/Ini_Reader.thy ===== *)
theory Ini_Reader
  imports Ini C_Stdlib
begin

text \<open>
  \<open>include/INIReader.hpp\<close> and \<open>src/INIReader.cpp\<close>: the reader stores the pairs of a file in a map
  from lower-case \<open>section.name\<close> keys to values and answers queries from it. The map is the state
  of the callback it hands to \<open>ini_parse\<close>; \<open>operator[]\<close> of an absent key inserts the empty string.
\<close>

type_synonym ini_values = "string \<rightharpoonup> string"

record ini_reader =
  reader_error :: int
  reader_values :: ini_values

definition MakeKey :: "string \<Rightarrow> string \<Rightarrow> string" where
  "MakeKey section_name name = map tolower (section_name @ ''.'' @ name)"

definition ValueHandler :: "ini_values handler" where
  "ValueHandler values section_name name value =
     (let key = MakeKey section_name name;
          v0 = (case values key of None \<Rightarrow> [] | Some v \<Rightarrow> v);
          v1 = (if length v0 > 0 then v0 @ [newline] else v0)
      in (True, values(key \<mapsto> v1 @ value)))"

definition INIReader :: "string option \<Rightarrow> ini_reader" where
  "INIReader file =
     (let (e, values) = ini_parse file ValueHandler Map.empty
      in \<lparr>reader_error = e, reader_values = values\<rparr>)"

definition ParseError :: "ini_reader \<Rightarrow> int" where
  "ParseError r = reader_error r"

definition Get :: "ini_reader \<Rightarrow> string \<Rightarrow> string \<Rightarrow> string \<Rightarrow> string" where
  "Get r section_name name default_value =
     (case reader_values r (MakeKey section_name name) of Some v \<Rightarrow> v | None \<Rightarrow> default_value)"

definition GetInteger :: "ini_reader \<Rightarrow> string \<Rightarrow> string \<Rightarrow> int \<Rightarrow> int" where
  "GetInteger r section_name name default_value =
     (case strtol 0 (c_str (Get r section_name name [])) of
        Some n \<Rightarrow> n
      | None \<Rightarrow> default_value)"

definition GetBoolean :: "ini_reader \<Rightarrow> string \<Rightarrow> string \<Rightarrow> bool \<Rightarrow> bool" where
  "GetBoolean r section_name name default_value =
     (let valstr = map tolower (Get r section_name name [])
      in if valstr = ''true'' \<or> valstr = ''yes'' \<or> valstr = ''on'' \<or> valstr = ''1'' then True
         else if valstr = ''false'' \<or> valstr = ''no'' \<or> valstr = ''off'' \<or> valstr = ''0'' then False
         else default_value)"

section \<open>The callback\<close>

definition store_value :: "ini_values \<Rightarrow> string \<Rightarrow> string \<Rightarrow> string \<Rightarrow> ini_values" where
  "store_value m s n v = snd (ValueHandler m s n v)"

interpretation vh: accepting_handler ValueHandler store_value
  by unfold_locales (simp add: store_value_def ValueHandler_def Let_def)

lemma store_value_fresh: "m (MakeKey s n) = None \<Longrightarrow> store_value m s n v = m(MakeKey s n \<mapsto> v)"
  by (simp add: store_value_def ValueHandler_def)

definition triple_key :: "string \<times> string \<times> string \<Rightarrow> string" where
  "triple_key t = MakeKey (fst t) (fst (snd t))"

definition triple_value :: "string \<times> string \<times> string \<Rightarrow> string" where
  "triple_value t = snd (snd t)"

lemma store_all_distinct:
  assumes "distinct (map triple_key ts)" and "\<forall>t \<in> set ts. m (triple_key t) = None"
  shows "store_all store_value m ts = m ++ map_of (map (\<lambda>t. (triple_key t, triple_value t)) ts)"
  using assms
proof (induction ts arbitrary: m)
  case Nil
  then show ?case by (simp add: store_all_def)
next
  case (Cons t ts)
  obtain s n v where t: "t = (s, n, v)" by (cases t)
  have "store_all store_value m (t # ts) = store_all store_value (m(triple_key t \<mapsto> v)) ts"
    using Cons.prems(2) by (simp add: store_all_def t triple_key_def store_value_fresh)
  also have "\<dots> = m(triple_key t \<mapsto> v) ++ map_of (map (\<lambda>t. (triple_key t, triple_value t)) ts)"
    using Cons.prems by (intro Cons.IH) (auto simp: image_iff)
  also have "\<dots> = m ++ map_of (map (\<lambda>t. (triple_key t, triple_value t)) (t # ts))"
  proof -
    have "triple_key t \<notin> dom (map_of (map (\<lambda>t. (triple_key t, triple_value t)) ts))"
      using Cons.prems(1) by (simp add: dom_map_of_conv_image_fst image_image)
    then show ?thesis
      by (simp add: t triple_value_def map_add_upd_left)
  qed
  finally show ?case .
qed

section \<open>Properties\<close>

text \<open>
  C24: for the text of a configuration with plain names and values and no key given twice, the reader
  reports no error, finds each value under its section and name in any capitalisation, and answers
  the default for every other key.
\<close>

theorem reader_finds_values:
  assumes "plain_conf conf" and "distinct (map triple_key (conf_triples conf))"
  shows "ParseError (INIReader (Some (render_ini conf))) = 0 \<and>
    Get (INIReader (Some (render_ini conf))) s n d =
      (case map_of (map (\<lambda>t. (triple_key t, triple_value t)) (conf_triples conf)) (MakeKey s n) of
         Some v \<Rightarrow> v | None \<Rightarrow> d)"
  using vh.ini_parse_render [OF assms(1), of Map.empty] store_all_distinct [OF assms(2), of Map.empty]
  by (simp add: INIReader_def ini_parse_def ParseError_def Get_def)

definition sample_conf :: ini_conf where
  "sample_conf =
     [(''server'', [(''host'', ''0.0.0.0''), (''port'', ''3006'')]),
      (''aerospike'', [(''port'', ''3000''), (''timeout'', ''100'')])]"

lemma sample_conf_plain: "plain_conf sample_conf"
  by (simp add: sample_conf_def plain_conf_def plain_section_def plain_pair_def plain_name_def
      plain_value_def isspace_def newline_def)

lemma reader_finds_values_witness:
  "Get (INIReader (Some (render_ini sample_conf))) ''Server'' ''PORT'' '''' = ''3006'' \<and>
   Get (INIReader (Some (render_ini sample_conf))) ''server'' ''timeout'' ''9'' = ''9''"
  using reader_finds_values [OF sample_conf_plain]
  by (simp add: sample_conf_def conf_triples_def triple_key_def triple_value_def MakeKey_def tolower_def isupper_def
      char_of_def bit_iff_odd)

text \<open>
  A value that goes on in the next, indented line is stored with the lines joined by a line
  end, provided the name is shorter than the 50 characters the parser remembers of it.
\<close>

theorem reader_multi_line:
  assumes "plain_name n" and "length n < 50" and "plain_value v" and "plain_value w"
    and "hd w \<noteq> CHR '';''" and "hd w \<noteq> CHR ''#''" and "plain_section s"
    and "length n + length v < 196" and "length w < 198"
  shows "Get (INIReader (Some (render_ini [(s, [(n, v)])] @ '' '' @ w @ [newline]))) s n d =
    v @ [newline] @ w"
proof -
  have l1: "newline \<notin> set (''['' @ s @ '']'')" "length (''['' @ s @ '']'') < 199"
    using assms(7) newline_sep by (auto simp: plain_section_def)
  have l2: "newline \<notin> set (n @ '' = '' @ v)" "length (n @ '' = '' @ v) < 199"
    using plain_name_newline [OF assms(1)] assms(3,8) newline_sep by (simp_all add: plain_value_def)
  have l3: "newline \<notin> set ('' '' @ w)" "length ('' '' @ w) < 199"
    using assms(4,9) newline_sep by (simp_all add: plain_value_def)
  have n: "n \<noteq> []" "v \<noteq> []" using assms(1,3) by (auto simp: plain_name_def plain_value_def)
  let ?s0 = "ini_start Map.empty :: ini_values ini_state"
  let ?s1 = "?s0\<lparr>lineno := 1, sect := s, prev_name := []\<rparr>"
  let ?s2 = "?s1\<lparr>lineno := 2, prev_name := n, user := store_value Map.empty s n v\<rparr>"
  let ?s3 = "?s2\<lparr>lineno := 3, user := store_value (store_value Map.empty s n v) s n w\<rparr>"
  have "ini_loop ValueHandler ?s0 (render_ini [(s, [(n, v)])] @ '' '' @ w @ [newline]) = ?s3"
    using ini_loop_line [OF l1, of ValueHandler ?s0 "n @ '' = '' @ v @ newline # '' '' @ w @ [newline]"]
      ini_line_section [OF assms(7), of ValueHandler ?s0]
      ini_loop_line [OF l2, of ValueHandler ?s1 "'' '' @ w @ [newline]"]
      ini_line_pair [OF assms(1,3), of ?s1 ValueHandler]
      ini_loop_line [OF l3, of ValueHandler ?s2 "[]"]
      ini_line_continuation [OF assms(4,5,6), of ?s2 ValueHandler] assms(2) n(1)
    by (simp add: render_ini_def render_section_def render_pair_def vh.call_accepts ini_start_def)
  then show ?thesis
    using n(2)
    by (simp add: INIReader_def ini_parse_def ini_parse_file_def Get_def store_value_def ValueHandler_def)
qed

lemma reader_multi_line_witness:
  "Get (INIReader (Some (render_ini [(''s'', [(''hosts'', ''a,'')])] @ '' '' @ ''b'' @ [newline]))) ''s'' ''hosts'' '''' =
     ''a,'' @ [newline] @ ''b''"
  using reader_multi_line [of "''hosts''" "''a,''" "''b''" "''s''" "''''"]
  by (simp add: plain_section_def plain_name_def plain_value_def isspace_def newline_def)

lemma hd_dec_string: "0 < k \<Longrightarrow> hd (dec_string k) \<noteq> CHR ''0''"
proof (induction k rule: dec_string.induct)
  case (1 k)
  show ?case
  proof (cases "k < 10")
    case True
    then have "uchar (digit_char k) \<noteq> uchar (CHR ''0'')" using "1.prems" by simp
    then have "digit_char k \<noteq> CHR ''0''" by auto
    with True show ?thesis by (subst dec_string.simps) simp
  next
    case False
    with 1 show ?thesis by (subst dec_string.simps) simp
  qed
qed

lemma strtol_0_dec_string:
  assumes "0 < m" and "int m < 2 ^ 63"
  shows "strtol 0 (dec_string m) = Some (int m)"
proof -
  obtain c cs where ds: "dec_string m = c # cs" by (cases "dec_string m") auto
  have dg: "\<forall>x \<in> set (dec_string m). isdigit x" by (rule dec_string_digits)
  have c: "isdigit c" "c \<noteq> CHR ''0''" using dg ds hd_dec_string [OF assms(1)] by simp_all
  have "strtol_base 0 (dec_string m) = (10, dec_string m)"
    using c(2) by (cases cs; cases "tl cs") (simp_all add: strtol_base_def ds)
  moreover have "dropWhile isspace (dec_string m) = dec_string m"
    using c isdigit_not_isspace by (simp add: ds)
  moreover have "strip_sign (dec_string m) = (False, dec_string m)"
    using c by (simp add: ds strip_sign_digit)
  ultimately show ?thesis
    using assms(2) dg
    by (simp add: strtol_def base_val_10 clamp_long_def Let_def is_base_digit_10
        takeWhile_eq_all_conv [THEN iffD2])
qed

lemma strtol_0_octal:
  assumes "ds \<noteq> []" and "\<forall>c \<in> set ds. is_base_digit 8 c" and "int (base_val 8 ds) < 2 ^ 63"
  shows "strtol 0 (CHR ''0'' # ds) = Some (int (base_val 8 ds))"
proof -
  have o: "is_base_digit 8 (CHR ''0'')" "\<not> isspace (CHR ''0'')" "isdigit (CHR ''0'')"
    by (simp_all add: is_base_digit_def digit_val_def isdigit_def isspace_def)
  obtain c cs where ds: "ds = c # cs" using assms(1) by (cases ds) auto
  have "is_base_digit 8 c" using assms(2) ds by simp
  then have "c \<noteq> CHR ''x''" "c \<noteq> CHR ''X''"
    by (auto simp: is_base_digit_def digit_val_def isdigit_def isupper_def islower_def)
  then have "strtol_base 0 (CHR ''0'' # ds) = (8, CHR ''0'' # ds)"
    by (cases cs) (simp_all add: strtol_base_def ds)
  moreover have "base_val 8 (CHR ''0'' # ds) = base_val 8 ds"
    by (simp add: base_val_def digit_val_def isdigit_def)
  ultimately show ?thesis
    using assms(2,3) o strip_sign_digit [of "CHR ''0''" ds]
    by (simp add: strtol_def clamp_long_def Let_def takeWhile_eq_all_conv [THEN iffD2])
qed

text \<open>
  A value that is a decimal numeral without leading zero is read as its number.
\<close>

theorem reader_integer:
  assumes "Get r s n [] = dec_string m" and "0 < m" and "int m < 2 ^ 63"
  shows "GetInteger r s n d = int m"
proof -
  have "c_str (dec_string m) = dec_string m"
    using dec_string_digits [of m] by (intro c_str_plain) (auto simp: isdigit_def)
  then show ?thesis
    using assms(1) strtol_0_dec_string [OF assms(2,3)] by (simp add: GetInteger_def)
qed

definition sample_reader :: "string \<Rightarrow> ini_reader" where
  "sample_reader port = \<lparr>reader_error = 0, reader_values = [MakeKey ''server'' ''port'' \<mapsto> port]\<rparr>"

lemma reader_integer_witness: "GetInteger (sample_reader ''3006'') ''server'' ''port'' 8000 = 3006"
  using reader_integer [of "sample_reader ''3006''" "''server''" "''port''" 3006 8000]
  by (simp add: sample_reader_def Get_def dec_eval)

text \<open>
  A numeral with a leading zero is read in octal, although the header file promises decimal and
  hexadecimal integers only.
\<close>

theorem reader_octal:
  assumes "Get r s n [] = CHR ''0'' # ds" and "ds \<noteq> []" and "\<forall>c \<in> set ds. is_base_digit 8 c"
    and "int (base_val 8 ds) < 2 ^ 63"
  shows "GetInteger r s n d = int (base_val 8 ds)"
proof -
  have "CHR 0x00 \<notin> set (CHR ''0'' # ds)"
    using assms(3) by (auto simp: is_base_digit_def digit_val_def isdigit_def isupper_def islower_def)
  then show ?thesis
    using assms(1) strtol_0_octal [OF assms(2-4)] by (simp add: GetInteger_def c_str_plain)
qed

lemma reader_octal_witness: "GetInteger (sample_reader ''0100'') ''server'' ''port'' 8000 = 64"
  using reader_octal [of "sample_reader ''0100''" "''server''" "''port''" "''100''" 8000]
  by (simp add: sample_reader_def Get_def is_base_digit_def digit_val_def isdigit_def base_val_def)

end
