(* ===== verification/Boost_Lib.thy ===== *)
theory Boost_Lib
  imports Prelude
begin

text \<open>
  The functions of the Boost string library the program calls. Boost is not part of the
  repository, so the functions are a parameter of the model: a record of functions that every
  operation using one takes as its argument. \<open>boost_contract\<close> is the documented behaviour some
  properties assume, and \<open>boost_ref\<close> an executable instance of it for their witnesses:
  \<^item> \<open>to_lower_copy\<close> (and \<open>to_lower\<close>) apply \<open>tolower\<close> to each character;
  \<^item> \<open>split\<close> with \<open>is_any_of\<close> and the default \<open>token_compress_off\<close> cuts at each separator,
    keeping empty tokens;
  \<^item> \<open>replace_all\<close> with a one-character search string and an empty replacement erases that
    character;
  \<^item> \<open>lexical_cast<std::string>\<close> of a \<open>size_t\<close> is its decimal numeral.
\<close>

record boost =
  to_lower_copy :: "string \<Rightarrow> string"
  split_any_of :: "string \<Rightarrow> string \<Rightarrow> string list"
  replace_all :: "string \<Rightarrow> string \<Rightarrow> string \<Rightarrow> string"
  lexical_cast_size :: "nat \<Rightarrow> string"

fun tokens_of :: "string \<Rightarrow> string \<Rightarrow> string list" where
  "tokens_of seps [] = [[]]"
| "tokens_of seps (c # cs) =
     (if c \<in> set seps then [] # tokens_of seps cs
      else (case tokens_of seps cs of [] \<Rightarrow> [[c]] | t # ts \<Rightarrow> (c # t) # ts))"

definition boost_contract :: "boost \<Rightarrow> bool" where
  "boost_contract B \<longleftrightarrow>
     (\<forall>s. to_lower_copy B s = map tolower s) \<and>
     (\<forall>seps s. split_any_of B seps s = tokens_of seps s) \<and>
     (\<forall>s c. replace_all B s [c] [] = filter (\<lambda>x. x \<noteq> c) s) \<and>
     (\<forall>n. lexical_cast_size B n = dec_string n)"

definition boost_ref :: boost where
  "boost_ref =
     \<lparr>to_lower_copy = map tolower, split_any_of = tokens_of,
      replace_all = (\<lambda>s f t. concat (map (\<lambda>x. if [x] = f then t else [x]) s)),
      lexical_cast_size = dec_string\<rparr>"

lemma boost_ref_contract: "boost_contract boost_ref"
proof -
  have "concat (map (\<lambda>x. if x = c then [] else [x]) s) = filter (\<lambda>x. x \<noteq> c) s" for s and c :: char
    by (induction s) auto
  then show ?thesis by (simp add: boost_contract_def boost_ref_def)
qed

lemma boost_contractD:
  assumes "boost_contract B"
  shows "to_lower_copy B s = map tolower s"
    and "split_any_of B seps s = tokens_of seps s"
    and "replace_all B s [c] [] = filter (\<lambda>x. x \<noteq> c) s"
    and "lexical_cast_size B n = dec_string n"
  using assms by (auto simp: boost_contract_def)

lemma tokens_of_nonempty [simp]: "tokens_of seps s \<noteq> []"
  by (cases s) (auto split: list.split)

lemma tokens_of_no_sep: "t \<in> set (tokens_of seps s) \<Longrightarrow> set t \<inter> set seps = {}"
  by (induction s arbitrary: t) (fastforce split: if_splits list.splits)+

lemma tokens_of_plain: "set s \<inter> set seps = {} \<Longrightarrow> tokens_of seps s = [s]"
  by (induction s) auto

lemma tokens_of_append:
  "set s \<inter> set seps = {} \<Longrightarrow> c \<in> set seps \<Longrightarrow> tokens_of seps (s @ c # t) = s # tokens_of seps t"
  by (induction s) auto

lemma tokens_of_intercalate:
  "ts \<noteq> [] \<Longrightarrow> \<forall>t \<in> set ts. c \<notin> set t \<Longrightarrow> tokens_of [c] (intercalate [c] ts) = ts"
proof (induction ts)
  case Nil
  then show ?case by simp
next
  case (Cons t ts)
  then show ?case
    by (cases "ts = []") (simp_all add: tokens_of_plain intercalate_Cons tokens_of_append)
qed

end
