(* ===== verification/As_Control.thy ===== *)
theory As_Control
  imports As_Object Ini_Reader Boost_Lib
begin

text \<open>
  \<open>include/as_control.hpp\<close>: the class \<open>AS_CONTROL\<close>, the pool of one \<open>AS_OBJECT\<close> per thread, its
  health check and its access to the configuration. A thread id is of type \<open>'t\<close>; the two unordered
  maps are maps, and the order in which a loop visits one is an argument. An \<open>AS_OBJECT *\<close> of the
  pool is the entry of its thread: no entry's pointer is stored anywhere else.

  Two interfaces are stated as locales and interpreted here: what the request handler relies on of
  the pool (\<open>object_pool\<close>), and what the periodic check relies on of an object (\<open>monitored\<close>). The
  unsynchronised lookup and insertion of several threads is in \<open>Pool_Race\<close>.
\<close>

record 't as_control =
  port :: int
  timeout :: int
  threadCount :: int
  as_health :: bool
  config_reader :: ini_reader
  servers :: string
  as_server_list :: "string list"
  health_file :: string
  mthreadList :: "'t \<rightharpoonup> int"
  rAsList :: "'t \<rightharpoonup> as_object"

definition AS_CONTROL_new ::
  "boost \<Rightarrow> string \<Rightarrow> int \<Rightarrow> int \<Rightarrow> int \<Rightarrow> string \<Rightarrow> ini_reader \<Rightarrow> 't as_control" where
  "AS_CONTROL_new B servers_arg port_arg timeout_arg threadCount_arg health_file_arg reader_arg =
     \<lparr>port = port_arg, timeout = timeout_arg, threadCount = threadCount_arg, as_health = False,
      config_reader = reader_arg, servers = servers_arg,
      as_server_list = split_any_of B '','' servers_arg, health_file = health_file_arg,
      mthreadList = Map.empty, rAsList = Map.empty\<rparr>"

text \<open>The destructor; \<open>order\<close> lists the keys of \<open>rAsList\<close>.\<close>

fun AS_CONTROL_delete :: "'w aerospike \<Rightarrow> 't list \<Rightarrow> 't as_control \<Rightarrow> 'w \<Rightarrow> 'w" where
  "AS_CONTROL_delete A [] c w = w"
| "AS_CONTROL_delete A (key # keys) c w =
     AS_CONTROL_delete A keys c
       (case rAsList c key of None \<Rightarrow> w | Some x \<Rightarrow> AS_OBJECT_delete A x w)"

text \<open>\<open>rAsList[t] = new AS_OBJECT(as_server_list_, port_, timeout_)\<close>.\<close>

definition insert_object :: "'w aerospike \<Rightarrow> 't \<Rightarrow> 't as_control \<Rightarrow> 'w \<Rightarrow> 't as_control \<times> 'w" where
  "insert_object A t c w =
     (let (x, servers', w') =
        AS_OBJECT_new A (as_server_list c) (port c) (word_of_int (timeout c)) w
      in (c\<lparr>as_server_list := servers', rAsList := (rAsList c)(t \<mapsto> x)\<rparr>, w'))"

text \<open>The object returned is the entry of the calling thread in the new state.\<close>

definition GetAsObject :: "'w aerospike \<Rightarrow> 't \<Rightarrow> 't as_control \<Rightarrow> 'w \<Rightarrow> 't as_control \<times> 'w" where
  "GetAsObject A t c w = (if rAsList c t = None then insert_object A t c w else (c, w))"

fun Initialize_loop :: "'w aerospike \<Rightarrow> 't list \<Rightarrow> 't as_control \<Rightarrow> 'w \<Rightarrow> 't as_control \<times> 'w" where
  "Initialize_loop A [] c w = (c, w)"
| "Initialize_loop A (key # keys) c w =
     (let (c', w') = (if rAsList c key = None then insert_object A key c w else (c, w))
      in Initialize_loop A keys c' w')"

text \<open>\<open>order\<close> lists the keys of \<open>mthreadList\<close>.\<close>

definition Initialize :: "'w aerospike \<Rightarrow> 't list \<Rightarrow> 't as_control \<Rightarrow> 'w \<Rightarrow> 't as_control \<times> 'w" where
  "Initialize A order c w = Initialize_loop A order c w"

fun sweep :: "('x \<Rightarrow> 'w \<Rightarrow> bool \<times> 'x \<times> 'w) \<Rightarrow> ('x \<Rightarrow> 'w \<Rightarrow> 'x \<times> 'w) \<Rightarrow> 't list \<Rightarrow> ('t \<rightharpoonup> 'x) \<Rightarrow> 'w \<Rightarrow>
    ('t \<rightharpoonup> 'x) \<times> 'w" where
  "sweep check repair [] m w = (m, w)"
| "sweep check repair (k # ks) m w =
     (case m k of
        None \<Rightarrow> sweep check repair ks m w
      | Some x \<Rightarrow>
          (let (ok, x1, w1) = check x w;
               (x2, w2) = (if \<not> ok then repair x1 w1 else (x1, w1))
           in sweep check repair ks (m(k \<mapsto> x2)) w2))"

definition CheckAsServersStatus ::
  "'w aerospike \<Rightarrow> 't list \<Rightarrow> 't as_control \<Rightarrow> 'w \<Rightarrow> 't as_control \<times> 'w" where
  "CheckAsServersStatus A order c w =
     (let (m, w') = sweep (AS_OBJECT_STATUS A) (AS_OBJECT_RECONNECT A) order (rAsList c) w
      in (c\<lparr>rAsList := m\<rparr>, w'))"

definition healthFileExist :: "(string \<Rightarrow> bool) \<Rightarrow> 't as_control \<Rightarrow> bool" where
  "healthFileExist exists c = exists (c_str (health_file c))"

fun alive_loop :: "'w aerospike \<Rightarrow> 't list \<Rightarrow> ('t \<rightharpoonup> as_object) \<Rightarrow> bool \<times> ('t \<rightharpoonup> as_object)" where
  "alive_loop A [] m = (True, m)"
| "alive_loop A (k # ks) m =
     (case m k of
        None \<Rightarrow> alive_loop A ks m
      | Some x \<Rightarrow>
          (let (ok, x') = isAliveAsServer A x
           in if \<not> ok then (False, m(k \<mapsto> x')) else alive_loop A ks (m(k \<mapsto> x'))))"

text \<open>\<open>order\<close> lists the keys of \<open>rAsList\<close>, for both loops over it.\<close>

definition GetAsHealthStatus ::
  "'w aerospike \<Rightarrow> (string \<Rightarrow> bool) \<Rightarrow> 't list \<Rightarrow> 't as_control \<Rightarrow> 'w \<Rightarrow> bool \<times> 't as_control \<times> 'w" where
  "GetAsHealthStatus A exists order c w =
     (if order = [] then (False, c, w)
      else if \<not> healthFileExist exists c then (False, c, w)
      else
        (let (c', w') = CheckAsServersStatus A order c w;
             (ok, m) = alive_loop A order (rAsList c')
         in (ok, c'\<lparr>rAsList := m\<rparr>, w')))"

definition getConfigString :: "'t as_control \<Rightarrow> string \<Rightarrow> string \<Rightarrow> string \<Rightarrow> string" where
  "getConfigString c section_name name d = Get (config_reader c) section_name name d"

definition getConfigInt :: "'t as_control \<Rightarrow> string \<Rightarrow> string \<Rightarrow> int \<Rightarrow> int" where
  "getConfigInt c section_name name d = int_of_long (GetInteger (config_reader c) section_name name d)"

definition getConfigFloat :: "'t as_control \<Rightarrow> string \<Rightarrow> string \<Rightarrow> int \<Rightarrow> int" where
  "getConfigFloat c section_name name d = GetInteger (config_reader c) section_name name d"

definition getConfigBool :: "'t as_control \<Rightarrow> string \<Rightarrow> string \<Rightarrow> int \<Rightarrow> bool" where
  "getConfigBool c section_name name d = GetBoolean (config_reader c) section_name name (d \<noteq> 0)"

section \<open>The pool as an interface\<close>

text \<open>The acquisitions of a list of threads, one after the other.\<close>

fun acquire_all :: "('t \<Rightarrow> 'c \<Rightarrow> 'w \<Rightarrow> 'c \<times> 'w) \<Rightarrow> 't list \<Rightarrow> 'c \<Rightarrow> 'w \<Rightarrow> 'c \<times> 'w" where
  "acquire_all acq [] c w = (c, w)"
| "acquire_all acq (t # ts) c w = (let (c', w') = acq t c w in acquire_all acq ts c' w')"

text \<open>
  What a client of the pool relies on: after an acquisition the thread has an object, a thread that
  has one keeps it, and no other thread's entry changes.
\<close>

locale object_pool =
  fixes acquire :: "'t \<Rightarrow> 'c \<Rightarrow> 'w \<Rightarrow> 'c \<times> 'w"
    and objects :: "'c \<Rightarrow> 't \<rightharpoonup> 'x"
  assumes acquired: "objects (fst (acquire t c w)) t \<noteq> None"
    and stable: "objects c t \<noteq> None \<Longrightarrow> acquire t c w = (c, w)"
    and others: "t' \<noteq> t \<Longrightarrow> objects (fst (acquire t c w)) t' = objects c t'"
begin

lemma acquire_twice:
  "acquire t c w = (c', w') \<Longrightarrow> acquire t c' w' = (c', w')"
  using acquired [of t c w] by (simp add: stable)

lemma acquire_keeps: "objects c t = Some x \<Longrightarrow> objects (fst (acquire t' c w)) t = Some x"
  using stable [of c t w] others [of t t' c w] by (cases "t = t'") simp_all

lemma acquire_all_keeps: "objects c t = Some x \<Longrightarrow> objects (fst (acquire_all acquire ts c w)) t = Some x"
proof (induction ts arbitrary: c w)
  case Nil
  then show ?case by simp
next
  case (Cons t' ts)
  then show ?case using acquire_keeps [of c t x t' w] by (auto split: prod.split)
qed

lemma acquire_all_covers: "dom (objects (fst (acquire_all acquire ts c w))) = dom (objects c) \<union> set ts"
proof (induction ts arbitrary: c w)
  case Nil
  show ?case by simp
next
  case (Cons t ts)
  have "dom (objects (fst (acquire t c w))) = insert t (dom (objects c))"
    using acquired [of t c w] others [of _ t c w] by (fastforce simp: dom_def)
  moreover obtain c1 w1 where "acquire t c w = (c1, w1)" by fastforce
  ultimately show ?case using Cons [of c1 w1] by simp
qed

end

interpretation pool: object_pool "GetAsObject A" rAsList for A :: "'w aerospike"
  by unfold_locales (auto simp: GetAsObject_def insert_object_def split: prod.split)

lemma Initialize_acquire_all: "Initialize_loop A ts c w = acquire_all (GetAsObject A) ts c w"
  by (induction ts arbitrary: c w) (simp_all add: GetAsObject_def split: prod.split)

text \<open>
  The destructor destroys the handle of every object in the pool, each once: \<open>destroyed\<close> is any record
  the world keeps of the handles destroyed.
\<close>

lemma AS_CONTROL_delete_destroys:
  assumes "\<And>cfg w. destroyed (aerospike_destroy A cfg w) = destroyed w @ [cfg]"
    and "\<And>cfg w. destroyed (snd (snd (aerospike_close A cfg w))) = destroyed w"
    and "set order \<subseteq> dom (rAsList c)"
  shows "destroyed (AS_CONTROL_delete A order c w) = destroyed w @ map (\<lambda>t. as_cfg (the (rAsList c t))) order"
  using assms(3)
proof (induction order arbitrary: w)
  case Nil
  then show ?case by simp
next
  case (Cons t ts)
  then obtain x where x: "rAsList c t = Some x" by auto
  obtain st err w1 where cl: "aerospike_close A (as_cfg x) w = (st, err, w1)" by (cases "aerospike_close A (as_cfg x) w")
  then have "destroyed (AS_OBJECT_delete A x w) = destroyed w @ [as_cfg x]"
    using assms(1) assms(2) [of "as_cfg x" w] by (simp add: AS_OBJECT_delete_def)
  with Cons x show ?case by simp
qed

section \<open>The periodic check as an interface\<close>

text \<open>
  What the check relies on of an object: the status test fails on a dead object and changes
  neither its liveness nor what it connects to; the repair brings it to life exactly when its
  target can be reached.
\<close>

locale monitored =
  fixes check :: "'x \<Rightarrow> 'w \<Rightarrow> bool \<times> 'x \<times> 'w"
    and repair :: "'x \<Rightarrow> 'w \<Rightarrow> 'x \<times> 'w"
    and alive :: "'x \<Rightarrow> bool"
    and reachable :: "'x \<Rightarrow> 'w \<Rightarrow> bool"
  assumes check_dead: "\<not> alive x \<Longrightarrow> \<not> fst (check x w)"
    and check_alive: "alive (fst (snd (check x w))) = alive x"
    and repair_alive: "alive (fst (repair x w)) = reachable x w"
begin

lemma sweep_other: "k \<notin> set ks \<Longrightarrow> fst (sweep check repair ks m w) k = m k"
  by (induction ks arbitrary: m w) (auto split: option.split prod.split)

lemma sweep_dom: "dom (fst (sweep check repair ks m w)) = dom m"
  by (induction ks arbitrary: m w) (auto split: option.split prod.split)

lemma sweep_alive:
  assumes "\<And>x w. reachable x w" and "distinct ks" and "k \<in> set ks"
    and "fst (sweep check repair ks m w) k = Some x"
  shows "alive x"
  using assms(2-4)
proof (induction ks arbitrary: m w)
  case Nil
  then show ?case by simp
next
  case (Cons k' ks)
  show ?case
  proof (cases "m k'")
    case None
    then have "k \<noteq> k'"
      using Cons.prems sweep_other [of k' ks m w] by auto
    with None Cons show ?thesis by auto
  next
    case (Some y)
    obtain b y1 w1 where c: "check y w = (b, y1, w1)" by (cases "check y w")
    obtain y2 w2 where r: "(if \<not> b then repair y1 w1 else (y1, w1)) = (y2, w2)" by fastforce
    have "alive y2"
      using c r repair_alive [of y1 w1] check_alive [of y w] check_dead [of y w] assms(1)
      by (auto split: if_splits)
    moreover have s: "sweep check repair (k' # ks) m w = sweep check repair ks (m(k' \<mapsto> y2)) w2"
      using Some c r by simp
    ultimately show ?thesis
      using Cons sweep_other [of k' ks "m(k' \<mapsto> y2)" w2] by (cases "k = k'") auto
  qed
qed

end

definition cluster_reachable :: "'w aerospike \<Rightarrow> as_object \<Rightarrow> 'w \<Rightarrow> bool" where
  "cluster_reachable A x w \<longleftrightarrow> fst (aerospike_connect A (as_cfg x) w) = AEROSPIKE_OK A"

interpretation mon: monitored "AS_OBJECT_STATUS A" "AS_OBJECT_RECONNECT A" isalive "cluster_reachable A"
  for A :: "'w aerospike"
  by unfold_locales
    (auto simp: AS_OBJECT_STATUS_def AS_OBJECT_RECONNECT_def cluster_reachable_def Let_def split: prod.split)

section \<open>Properties\<close>

text \<open>
  After \<open>Initialize\<close> exactly the threads that had an object before and the threads of the pool
  have one, and from then on such a thread is handed its own entry without a new connection and
  without a change to anything else.
\<close>

theorem pool_covers_threads:
  assumes "Initialize A order c w = (c', w')" and "t \<in> dom (rAsList c) \<union> set order"
  shows "dom (rAsList c') = dom (rAsList c) \<union> set order \<and> GetAsObject A t c' w'' = (c', w'')"
proof -
  have "c' = fst (acquire_all (GetAsObject A) order c w)"
    using assms(1) by (simp add: Initialize_def Initialize_acquire_all)
  then have d: "dom (rAsList c') = dom (rAsList c) \<union> set order"
    using pool.acquire_all_covers [of A order c w] by simp
  then show ?thesis using assms(2) pool.stable [of c' t A w''] by blast
qed

definition sample_control :: "nat as_control" where
  "sample_control = AS_CONTROL_new boost_ref ''h1,h2'' 3000 100 2 ''/alive'' (sample_reader ''3006'')"

lemma pool_covers_threads_witness:
  "\<exists>c' w'. Initialize cell_store [1, 2] sample_control None = (c', w') \<and> dom (rAsList c') = {1, 2} \<and>
     GetAsObject cell_store 2 c' None = (c', None)"
proof -
  obtain c' w' where i: "Initialize cell_store [1, 2] sample_control None = (c', w')" by fastforce
  with pool_covers_threads [OF i, of 2 None] show ?thesis
    by (auto simp: sample_control_def AS_CONTROL_new_def)
qed

text \<open>
  C30: while the cluster can be reached, one round of the periodic check leaves every object it
  visits alive, whatever state it was in, and adds or removes no object.
\<close>

theorem check_revives:
  assumes "\<And>cfg w. fst (aerospike_connect A cfg w) = AEROSPIKE_OK A"
    and "distinct order" and "t \<in> set order"
    and "CheckAsServersStatus A order c w = (c', w')"
  shows "dom (rAsList c') = dom (rAsList c) \<and> (case rAsList c' t of Some x \<Rightarrow> isalive x | None \<Rightarrow> t \<notin> dom (rAsList c))"
proof -
  have m: "rAsList c' = fst (sweep (AS_OBJECT_STATUS A) (AS_OBJECT_RECONNECT A) order (rAsList c) w)"
    using assms(4) by (auto simp: CheckAsServersStatus_def split: prod.splits)
  have d: "dom (rAsList c') = dom (rAsList c)" unfolding m by (rule mon.sweep_dom)
  have "isalive x" if "rAsList c' t = Some x" for x
    using mon.sweep_alive [of A order t "rAsList c" w x] that assms(1-3)
    by (simp add: cluster_reachable_def m)
  with d show ?thesis by (auto split: option.split)
qed

lemma check_revives_witness:
  "\<exists>c' w' x. CheckAsServersStatus cell_store [1]
     (sample_control\<lparr>rAsList := [1 \<mapsto> sample_object\<lparr>isalive := False\<rparr>]\<rparr>) None = (c', w') \<and>
     rAsList c' 1 = Some x \<and> isalive x"
proof -
  let ?c = "sample_control\<lparr>rAsList := [1 \<mapsto> sample_object\<lparr>isalive := False\<rparr>]\<rparr>"
  obtain c' w' where c: "CheckAsServersStatus cell_store [1] ?c None = (c', w')" by fastforce
  have "\<And>cfg w. fst (aerospike_connect cell_store cfg w) = AEROSPIKE_OK cell_store"
    by (simp add: cell_store_def)
  from check_revives [OF this _ _ c, of 1] c show ?thesis
    by (auto split: option.splits)
qed

end
