(* ===== verification/Http_Message.thy ===== *)
theory Http_Message
  imports Boost_Lib
begin

text \<open>
  \<open>include/header.hpp\<close> and \<open>include/request.hpp\<close>: the header and the request a connection
  collects, with the request's own operations. The default constructor of \<open>request\<close> leaves the
  two version numbers uninitialised; a model request is therefore never assumed to hold any
  particular version before the parser has set one.
\<close>

record header =
  hname :: string
  hvalue :: string

definition header_empty :: header where
  "header_empty = \<lparr>hname = [], hvalue = []\<rparr>"

definition header_make :: "string \<Rightarrow> string \<Rightarrow> header" where
  "header_make n v = \<lparr>hname = n, hvalue = v\<rparr>"

record request =
  "method" :: string
  uri :: string
  http_version_major :: int
  http_version_minor :: int
  headers :: "header list"
  content :: string
  tstamp :: int

definition request_clear :: "request \<Rightarrow> request" where
  "request_clear r =
     r\<lparr>method := [], uri := [], http_version_major := 0, http_version_minor := 0,
       headers := [], content := []\<rparr>"

fun find_header :: "header list \<Rightarrow> string \<Rightarrow> string" where
  "find_header [] name = []"
| "find_header (h # hs) name = (if hname h = name then hvalue h else find_header hs name)"

definition get_header :: "request \<Rightarrow> string \<Rightarrow> string" where
  "get_header r name = find_header (headers r) name"

definition is_http11 :: "request \<Rightarrow> bool" where
  "is_http11 r \<longleftrightarrow>
     http_version_major r > 1 \<or> (http_version_major r = 1 \<and> http_version_minor r > 0)"

definition want_keepalive :: "boost \<Rightarrow> request \<Rightarrow> bool" where
  "want_keepalive B r =
     (let rc = is_http11 r;
          cxn_hdr = to_lower_copy B (get_header r ''connection'')
      in if cxn_hdr = ''close'' then False
         else if cxn_hdr = ''keep-alive'' then True
         else rc)"

text \<open>The request holds nothing yet, whatever its version numbers and time stamp are.\<close>

definition fresh_request :: "request \<Rightarrow> bool" where
  "fresh_request r \<longleftrightarrow> method r = [] \<and> uri r = [] \<and> headers r = [] \<and> content r = []"

lemma fresh_request_clear [simp]: "fresh_request (request_clear r)"
  by (simp add: fresh_request_def request_clear_def)

lemma find_header_first:
  "find_header hs name =
     (case filter (\<lambda>h. hname h = name) hs of [] \<Rightarrow> [] | h # _ \<Rightarrow> hvalue h)"
  by (induction hs) auto

lemma find_header_absent: "(\<forall>h \<in> set hs. hname h \<noteq> name) \<Longrightarrow> find_header hs name = []"
  by (induction hs) auto

end
