(* ===== verification/Reply.thy ===== *)
theory Reply
  imports Http_Message C_Stdlib
begin

text \<open>
  \<open>include/reply.hpp\<close> and \<open>src/reply.cpp\<close>: the reply, its status line, its serialisation into the
  buffers of one write, and the stock replies. A buffer is the string it refers to; what goes to
  the socket is their concatenation. The default constructor leaves \<open>status\<close> uninitialised, which
  \<open>reply_new\<close> models by an arbitrary status.

  The second half is a reference client: it reads a status line, header lines up to the blank
  line and then \<open>Content-Length\<close> bytes. Its lemmas show what a reply must satisfy for such a
  client to find its end.
\<close>

section \<open>Status and status line\<close>

datatype status_type =
    Ok
  | Created
  | Accepted
  | No_content
  | Multiple_choices
  | Moved_permanently
  | Moved_temporarily
  | Not_modified
  | Bad_request
  | Unauthorized
  | Forbidden
  | Not_found
  | Internal_server_error
  | Not_implemented
  | Bad_gateway
  | Service_unavailable

fun status_code :: "status_type \<Rightarrow> nat" where
  "status_code Ok = 200"
| "status_code Created = 201"
| "status_code Accepted = 202"
| "status_code No_content = 204"
| "status_code Multiple_choices = 300"
| "status_code Moved_permanently = 301"
| "status_code Moved_temporarily = 302"
| "status_code Not_modified = 304"
| "status_code Bad_request = 400"
| "status_code Unauthorized = 401"
| "status_code Forbidden = 403"
| "status_code Not_found = 404"
| "status_code Internal_server_error = 500"
| "status_code Not_implemented = 501"
| "status_code Bad_gateway = 502"
| "status_code Service_unavailable = 503"

lemma status_code_inj: "status_code s = status_code t \<longleftrightarrow> s = t"
  by (cases s; cases t; simp)

text \<open>The order of the enumerators, which C++ compares by their codes.\<close>

instantiation status_type :: linorder
begin

definition less_eq_status_type :: "status_type \<Rightarrow> status_type \<Rightarrow> bool" where
  "less_eq_status_type s t \<longleftrightarrow> status_code s \<le> status_code t"

definition less_status_type :: "status_type \<Rightarrow> status_type \<Rightarrow> bool" where
  "less_status_type s t \<longleftrightarrow> status_code s < status_code t"

instance
  by standard (auto simp: less_eq_status_type_def less_status_type_def status_code_inj)

end

text \<open>\<open>status_strings::to_buffer\<close>, with the strings of that namespace.\<close>

fun to_buffer :: "status_type \<Rightarrow> string" where
  "to_buffer Ok = ''HTTP/1.1 200 OK'' @ crlf"
| "to_buffer Created = ''HTTP/1.1 201 Created'' @ crlf"
| "to_buffer Accepted = ''HTTP/1.1 202 Accepted'' @ crlf"
| "to_buffer No_content = ''HTTP/1.1 204 No Content'' @ crlf"
| "to_buffer Multiple_choices = ''HTTP/1.1 300 Multiple Choices'' @ crlf"
| "to_buffer Moved_permanently = ''HTTP/1.1 301 Moved Permanently'' @ crlf"
| "to_buffer Moved_temporarily = ''HTTP/1.1 302 Moved Temporarily'' @ crlf"
| "to_buffer Not_modified = ''HTTP/1.1 304 Not Modified'' @ crlf"
| "to_buffer Bad_request = ''HTTP/1.1 400 Bad Request'' @ crlf"
| "to_buffer Unauthorized = ''HTTP/1.1 401 Unauthorized'' @ crlf"
| "to_buffer Forbidden = ''HTTP/1.1 403 Forbidden'' @ crlf"
| "to_buffer Not_found = ''HTTP/1.1 404 Not Found'' @ crlf"
| "to_buffer Internal_server_error = ''HTTP/1.1 500 Internal Server Error'' @ crlf"
| "to_buffer Not_implemented = ''HTTP/1.1 501 Not Implemented'' @ crlf"
| "to_buffer Bad_gateway = ''HTTP/1.1 502 Bad Gateway'' @ crlf"
| "to_buffer Service_unavailable = ''HTTP/1.1 503 Service Unavailable'' @ crlf"

section \<open>The reply\<close>

record reply =
  status :: status_type
  rep_headers :: "header list"
  rep_content :: string

definition reply_new :: "status_type \<Rightarrow> reply" where
  "reply_new junk = \<lparr>status = junk, rep_headers = [], rep_content = []\<rparr>"

definition reply_clear :: "reply \<Rightarrow> reply" where
  "reply_clear rep = rep\<lparr>rep_headers := [], rep_content := []\<rparr>"

definition name_value_separator :: string where
  "name_value_separator = '': ''"

fun header_buffers :: "header list \<Rightarrow> string list" where
  "header_buffers [] = []"
| "header_buffers (h # hs) =
     hname h # name_value_separator # hvalue h # crlf # header_buffers hs"

definition to_buffers :: "reply \<Rightarrow> string list" where
  "to_buffers rep =
     to_buffer (status rep) # header_buffers (rep_headers rep) @ [crlf, rep_content rep]"

text \<open>The bytes one \<open>async_write\<close> of the buffers sends.\<close>

definition wire :: "reply \<Rightarrow> string" where
  "wire rep = concat (to_buffers rep)"

text \<open>\<open>stock_reply\<close>: its body and headers are commented out in the source.\<close>

definition stock_reply :: "status_type \<Rightarrow> reply" where
  "stock_reply s = (reply_new s)\<lparr>status := s\<rparr>"

text \<open>\<open>stock_replies::to_string\<close>, with the strings of that namespace.\<close>

fun stock_to_string :: "status_type \<Rightarrow> string" where
  "stock_to_string Ok =
     ''''"
| "stock_to_string Created =
     ''<html><head><title>Created</title></head>'' @
     ''<body><h1>201 Created</h1></body></html>'' @ crlf"
| "stock_to_string Accepted =
     ''<html><head><title>Accepted</title></head>'' @
     ''<body><h1>202 Accepted</h1></body></html>'' @ crlf"
| "stock_to_string No_content =
     ''<html><head><title>No Content</title></head>'' @
     ''<body><h1>204 Content</h1></body></html>'' @ crlf"
| "stock_to_string Multiple_choices =
     ''<html><head><title>Multiple Choices</title></head>'' @
     ''<body><h1>300 Multiple Choices</h1></body></html>'' @ crlf"
| "stock_to_string Moved_permanently =
     ''<html><head><title>Moved Permanently</title></head>'' @
     ''<body><h1>301 Moved Permanently</h1></body></html>'' @ crlf"
| "stock_to_string Moved_temporarily =
     ''<html><head><title>Moved Temporarily</title></head>'' @
     ''<body><h1>302 Moved Temporarily</h1></body></html>'' @ crlf"
| "stock_to_string Not_modified =
     ''<html><head><title>Not Modified</title></head>'' @
     ''<body><h1>304 Not Modified</h1></body></html>'' @ crlf"
| "stock_to_string Bad_request =
     ''<html><head><title>Bad Request</title></head>'' @
     ''<body><h1>400 Bad Request</h1></body></html>'' @ crlf"
| "stock_to_string Unauthorized =
     ''<html><head><title>Unauthorized</title></head>'' @
     ''<body><h1>401 Unauthorized</h1></body></html>'' @ crlf"
| "stock_to_string Forbidden =
     ''<html><head><title>Forbidden</title></head>'' @
     ''<body><h1>403 Forbidden</h1></body></html>'' @ crlf"
| "stock_to_string Not_found =
     ''<html><head><title>Not Found</title></head>'' @
     ''<body><h1>404 Not Found</h1></body></html>'' @ crlf"
| "stock_to_string Internal_server_error =
     ''<html><head><title>Internal Server Error</title></head>'' @
     ''<body><h1>500 Internal Server Error</h1></body></html>'' @ crlf"
| "stock_to_string Not_implemented =
     ''<html><head><title>Not Implemented</title></head>'' @
     ''<body><h1>501 Not Implemented</h1></body></html>'' @ crlf"
| "stock_to_string Bad_gateway =
     ''<html><head><title>Bad Gateway</title></head>'' @
     ''<body><h1>502 Bad Gateway</h1></body></html>'' @ crlf"
| "stock_to_string Service_unavailable =
     ''<html><head><title>Service Unavailable</title></head>'' @
     ''<body><h1>503 Service Unavailable</h1></body></html>'' @ crlf"

section \<open>A client that reads replies\<close>

fun take_line :: "string \<Rightarrow> (string \<times> string) option" where
  "take_line [] = None"
| "take_line (c # cs) =
     (if c = CHR 0x0D \<and> cs \<noteq> [] \<and> hd cs = CHR 0x0A then Some ([], tl cs)
      else (case take_line cs of None \<Rightarrow> None | Some (l, rest) \<Rightarrow> Some (c # l, rest)))"

lemma take_line_length: "take_line s = Some (l, rest) \<Longrightarrow> length rest < length s"
  by (induction s arbitrary: l) (fastforce split: if_splits option.splits prod.splits)+

definition read_header :: "string \<Rightarrow> header" where
  "read_header l =
     header_make (takeWhile (\<lambda>c. c \<noteq> CHR '':'') l) (drop 2 (dropWhile (\<lambda>c. c \<noteq> CHR '':'') l))"

function read_headers :: "string \<Rightarrow> (header list \<times> string) option" where
  "read_headers s =
     (case take_line s of
        None \<Rightarrow> None
      | Some (l, rest) \<Rightarrow>
          if l = [] then Some ([], rest)
          else (case read_headers rest of
                  None \<Rightarrow> None
                | Some (hs, rest') \<Rightarrow> Some (read_header l # hs, rest')))"
  by pat_completeness auto
termination
  by (relation "measure length") (auto dest: take_line_length)

declare read_headers.simps [simp del]

definition read_reply :: "string \<Rightarrow> (string \<times> header list \<times> string \<times> string) option" where
  "read_reply s =
     (case take_line s of
        None \<Rightarrow> None
      | Some (line, s1) \<Rightarrow>
          (case read_headers s1 of
             None \<Rightarrow> None
           | Some (hs, s2) \<Rightarrow>
               (let n = nat (atoi (find_header hs ''Content-Length''))
                in if length s2 < n then None else Some (line, hs, take n s2, drop n s2))))"

lemma take_line_crlf:
  assumes "CHR 0x0D \<notin> set l"
  shows "take_line (l @ crlf @ rest) = Some (l, rest)"
  using assms by (induction l) (auto simp: crlf_def)

text \<open>A header the client reads back: a name without colon and line ends, a value without line
  ends.\<close>

definition plain_header :: "header \<Rightarrow> bool" where
  "plain_header h \<longleftrightarrow>
     hname h \<noteq> [] \<and> CHR '':'' \<notin> set (hname h) \<and> CHR 0x0D \<notin> set (hname h) \<and>
     CHR 0x0D \<notin> set (hvalue h)"

lemma takeWhile_neq: "c \<notin> set n \<Longrightarrow> takeWhile (\<lambda>x. x \<noteq> c) (n @ c # v) = n"
  by (induction n) auto

lemma dropWhile_neq: "c \<notin> set n \<Longrightarrow> dropWhile (\<lambda>x. x \<noteq> c) (n @ c # v) = c # v"
  by (induction n) auto

lemma read_header_plain:
  "plain_header h \<Longrightarrow> read_header (hname h @ name_value_separator @ hvalue h) = h"
  by (cases h) (simp add: read_header_def plain_header_def name_value_separator_def header_make_def
      takeWhile_neq dropWhile_neq)

lemma read_headers_buffers:
  assumes "\<forall>h \<in> set hs. plain_header h"
  shows "read_headers (concat (header_buffers hs) @ crlf @ rest) = Some (hs, rest)"
  using assms
proof (induction hs)
  case Nil
  show ?case
    using take_line_crlf [of "[]" rest] by (subst read_headers.simps) simp
next
  case (Cons h hs)
  let ?l = "hname h @ name_value_separator @ hvalue h"
  have r: "read_header ?l = h" using Cons.prems by (simp add: read_header_plain)
  have "CHR 0x0D \<notin> set ?l" "?l \<noteq> []"
    using Cons.prems by (auto simp: plain_header_def name_value_separator_def)
  then have "take_line (concat (header_buffers (h # hs)) @ crlf @ rest) =
      Some (?l, concat (header_buffers hs) @ crlf @ rest)"
    using take_line_crlf [of ?l "concat (header_buffers hs) @ crlf @ rest"] by simp
  with Cons \<open>?l \<noteq> []\<close> r show ?case
    by (subst read_headers.simps) simp
qed

definition status_line :: "status_type \<Rightarrow> string" where
  "status_line s = takeWhile (\<lambda>c. c \<noteq> CHR 0x0D) (to_buffer s)"

lemma to_buffer_line: "to_buffer s = status_line s @ crlf" and
  status_line_plain: "CHR 0x0D \<notin> set (status_line s)"
  by (cases s; simp add: status_line_def crlf_def)+

lemma wire_append:
  "wire rep @ rest =
     status_line (status rep) @ crlf @ concat (header_buffers (rep_headers rep)) @ crlf @
     rep_content rep @ rest"
  by (simp add: wire_def to_buffers_def to_buffer_line)

lemma read_reply_wire:
  assumes "\<forall>h \<in> set (rep_headers rep). plain_header h"
    and "nat (atoi (find_header (rep_headers rep) ''Content-Length'')) = length (rep_content rep)"
  shows "read_reply (wire rep @ rest) =
    Some (status_line (status rep), rep_headers rep, rep_content rep, rest)"
  using assms(2)
  by (simp add: read_reply_def wire_append take_line_crlf [OF status_line_plain]
      read_headers_buffers [OF assms(1)])

section \<open>Properties\<close>

text \<open>
  The status line of each of the sixteen statuses is \<open>HTTP/1.1\<close>, the decimal code of the
  enumerator and a reason, and is terminated by the one line end it contains.
\<close>

theorem status_line_code:
  "take 13 (to_buffer s) = ''HTTP/1.1 '' @ dec_string (status_code s) @ '' '' \<and>
   take_line (to_buffer s) = Some (status_line s, [])"
proof
  show "take 13 (to_buffer s) = ''HTTP/1.1 '' @ dec_string (status_code s) @ '' ''"
    by (cases s; simp add: dec_eval)
  show "take_line (to_buffer s) = Some (status_line s, [])"
    using take_line_crlf [OF status_line_plain, of s "[]"] by (simp add: to_buffer_line)
qed

end
