(* ===== verification/Request_Handler.thy ===== *)
theory Request_Handler
  imports As_Control Reply Microtime
begin

text \<open>
  \<open>include/request_handler.hpp\<close> and \<open>src/request_handler.cpp\<close>: the class \<open>request_handler\<close>. The
  libraries it calls are bundled in one record, with the clock, a function of the state of the
  world that moves it on. The thread that runs the handler is an argument. The set of bin names
  the source collects from the parameter \<open>bins\<close> is never read and is left out, as are the reference
  counts of JSON values.
\<close>

record ('j, 'w, 'z) libs =
  lib_boost :: boost
  lib_json :: "'j jansson"
  lib_as :: "'w aerospike"
  lib_zlib :: "'z zlib"
  lib_realloc :: "nat \<Rightarrow> bool"
  lib_rounding :: rounding
  lib_clock :: "'w \<Rightarrow> timeval \<times> 'w"

section \<open>Queries\<close>

fun parse_pairs :: "string list \<Rightarrow> (string \<rightharpoonup> string) \<Rightarrow> (string \<rightharpoonup> string)" where
  "parse_pairs [] m = m"
| "parse_pairs (pair # vars) m =
     (case str_find pair ''='' 0 of
        Some sep \<Rightarrow>
          parse_pairs vars
            (m(substr pair 0 sep \<mapsto> substr pair (sep + 1) (length pair - (sep + 1))))
      | None \<Rightarrow> parse_pairs vars m)"

definition parse_query :: "boost \<Rightarrow> string \<Rightarrow> (string \<rightharpoonup> string) \<Rightarrow> (string \<rightharpoonup> string)" where
  "parse_query B query m =
     (if length query \<le> 0 \<or> query = [] then m else parse_pairs (split_any_of B ''&'' query) m)"

text \<open>The member \<open>url_decode\<close>, a second copy of the function of \<open>util.cpp\<close>.\<close>

fun rh_url_loop :: "string \<Rightarrow> string \<Rightarrow> bool \<times> string" where
  "rh_url_loop out [] = (True, out)"
| "rh_url_loop out (c # cs) =
     (if c = CHR ''%'' then
        (if 2 \<le> length cs then
           (case istream_hex (take 2 cs) of
              Some v \<Rightarrow> rh_url_loop (out @ [char_of_int v]) (drop 2 cs)
            | None \<Rightarrow> (False, out))
         else (False, out))
      else if c = CHR ''+'' then rh_url_loop (out @ '' '') cs
      else rh_url_loop (out @ [c]) cs)"

definition rh_url_decode :: "string \<Rightarrow> bool \<times> string" where
  "rh_url_decode s = rh_url_loop [] s"

lemma rh_url_decode_util: "rh_url_decode s = url_decode s"
proof -
  have "rh_url_loop out t = url_loop out t" for out t
    by (induction out t rule: rh_url_loop.induct) (simp_all split: option.split)
  then show ?thesis by (simp add: rh_url_decode_def url_decode_def)
qed

text \<open>The path before the first question mark and the parameters after it; both are empty when the
  URI does not decode or has no question mark.\<close>

definition split_uri :: "boost \<Rightarrow> string \<Rightarrow> string \<times> (string \<rightharpoonup> string)" where
  "split_uri B u =
     (let (ok, request_path) = rh_url_decode u
      in if ok then
           (case str_find request_path ''?'' 0 of
              Some pos \<Rightarrow>
                (substr request_path 0 pos,
                 parse_query B (substr request_path (pos + 1) (length request_path - (pos + 1)))
                   Map.empty)
            | None \<Rightarrow> ([], Map.empty))
         else ([], Map.empty))"

section \<open>The handler\<close>

text \<open>The branch for \<open>/get\<close>: the root object, the pool and the world after it.\<close>

definition handle_get ::
  "('j, 'w, 'z) libs \<Rightarrow> 't \<Rightarrow> (string \<rightharpoonup> string) \<Rightarrow> 'j \<Rightarrow> 't as_control \<Rightarrow> 'w \<Rightarrow>
     ('j \<times> 't as_control \<times> 'w) outcome" where
  "handle_get L t params base c w =
     (let A = lib_as L; J = lib_json L; (c1, w1) = GetAsObject A t c w
      in case rAsList c1 t of
           None \<Rightarrow> Inr (base, c1, w1)
         | Some x \<Rightarrow>
             (case GET A J (lib_zlib L) (lib_realloc L) x (map_get params ''ns'' [])
                     (map_get params ''set'' []) (map_get params ''key'' []) (json_object J) 0 0 w1 of
                Inl e \<Rightarrow> Inl e
              | Inr (nAsRet, x', results, ttl', gen', w2) \<Rightarrow>
                  Inr (if json_object_size J results > 0
                       then json_object_set_new_nocheck J base ''results'' (Some results) else base,
                       c1\<lparr>rAsList := (rAsList c1)(t \<mapsto> x')\<rparr>, w2)))"

definition handle_api ::
  "('j, 'w, 'z) libs \<Rightarrow> 't \<Rightarrow> string \<Rightarrow> (string \<rightharpoonup> string) \<Rightarrow> 't as_control \<Rightarrow> 'w \<Rightarrow>
     ('j \<times> 't as_control \<times> 'w) outcome" where
  "handle_api L t api params c w =
     (let J = lib_json L; base = json_object J
      in if api = ''/status'' then
           Inr (json_object_set_new_nocheck J
                  (json_object_set_new_nocheck J base ''proxy_code'' (json_integer J 100))
                  ''proxy_status'' (json_string J ''OK''), c, w)
         else if api = ''/get'' then handle_get L t params base c w
         else Inr (base, c, w))"

definition dump_flags :: "json_flag list" where
  "dump_flags = [JSON_COMPACT, JSON_ENCODE_ANY, JSON_REAL_PRECISION 8]"

text \<open>The part that builds the reply.\<close>

definition build_reply ::
  "('j, 'w, 'z) libs \<Rightarrow> 'j \<Rightarrow> reply \<Rightarrow> bool \<Rightarrow> reply outcome" where
  "build_reply L base rep keepalive =
     (case json_dumps (lib_json L) base dump_flags of
        None \<Rightarrow> Inl Null_dereference
      | Some result \<Rightarrow>
          (let body = rep_content rep @ c_str result
           in Inr \<lparr>status = Ok,
                rep_headers =
                  [header_make ''Content-Length'' (lexical_cast_size (lib_boost L) (length body)),
                   header_make ''Content-Type'' ''application/json; charset=UTF-8'',
                   header_make ''Connection'' (if keepalive then ''Keep-Alive'' else ''close'')],
                rep_content = body\<rparr>))"

definition handle_request ::
  "('j, 'w, 'z) libs \<Rightarrow> 't \<Rightarrow> request \<Rightarrow> reply \<Rightarrow> bool \<Rightarrow> 't as_control \<times> 'w \<Rightarrow>
     (reply \<times> 't as_control \<times> 'w) outcome" where
  "handle_request L t req rep keepalive s =
     (let (c, w) = s;
          (tv0, w0) = lib_clock L w;
          (urlfile, params) = split_uri (lib_boost L) (uri req);
          api = to_lower_copy (lib_boost L) urlfile
      in case handle_api L t api params c w0 of
           Inl e \<Rightarrow> Inl e
         | Inr (base, c1, w1) \<Rightarrow>
             (let (tv1, w2) = lib_clock L w1;
                  took = json_real (lib_json L) (seconds_since (lib_rounding L) tv1 (now tv0));
                  base' = json_object_set_new_nocheck (lib_json L) base ''took'' took
              in case build_reply L base' rep keepalive of
                   Inl e \<Rightarrow> Inl e
                 | Inr rep' \<Rightarrow> Inr (rep', c1, w2)))"

text \<open>
  The names of bins a client asks for: \<open>handle_request\<close> collects them in a local map, and nothing reads it.
\<close>

definition bin_names :: "boost \<Rightarrow> (string \<rightharpoonup> string) \<Rightarrow> (string \<rightharpoonup> int)" where
  "bin_names B params =
     fold (\<lambda>pair m. m(pair \<mapsto> 1)) (split_any_of B '','' (map_get params ''bins'' [])) Map.empty"

lemma bin_names_keys:
  assumes "boost_contract B"
  shows "dom (bin_names B params) = set (tokens_of '','' (map_get params ''bins'' []))"
proof -
  have "dom (fold (\<lambda>pair m. m(pair \<mapsto> (1 :: int))) xs m) = dom m \<union> set xs" for xs and m :: "string \<rightharpoonup> int"
    by (induction xs arbitrary: m) auto
  then show ?thesis by (simp add: bin_names_def boost_contractD(2) [OF assms])
qed

section \<open>Queries and their text\<close>

definition query_pair :: "string \<times> string \<Rightarrow> string" where
  "query_pair kv = fst kv @ ''='' @ snd kv"

definition query_text :: "(string \<times> string) list \<Rightarrow> string" where
  "query_text kvs = intercalate ''&'' (map query_pair kvs)"

definition plain_param :: "string \<times> string \<Rightarrow> bool" where
  "plain_param kv \<longleftrightarrow> CHR ''&'' \<notin> set (fst kv) \<and> CHR ''='' \<notin> set (fst kv) \<and> CHR ''&'' \<notin> set (snd kv)"

lemma str_find_char:
  "c \<notin> set a \<Longrightarrow> str_find (a @ c # b) [c] 0 = Some (length a)"
proof -
  assume "c \<notin> set a"
  then have "takeWhile (\<lambda>x. x \<noteq> c) (a @ c # b) = a" by (induction a) auto
  then show ?thesis by (simp add: str_find_def find_from_char)
qed

lemma str_find_char_absent: "c \<notin> set a \<Longrightarrow> str_find a [c] 0 = None"
  by (simp add: str_find_def find_from_char)

lemma parse_pairs_plain:
  "\<forall>kv \<in> set kvs. plain_param kv \<Longrightarrow> parse_pairs (map query_pair kvs) m = m ++ map_of (rev kvs)"
proof (induction kvs arbitrary: m)
  case Nil
  then show ?case by simp
next
  case (Cons kv kvs)
  obtain k v where kv: "kv = (k, v)" by (cases kv)
  have st: "parse_pairs (map query_pair (kv # kvs)) m = parse_pairs (map query_pair kvs) (m(k \<mapsto> v))"
    using Cons.prems str_find_char [of "CHR ''=''" k v]
    by (simp add: kv query_pair_def plain_param_def substr_def)
  have e: "m ++ map_of (rev (kv # kvs)) = m(k \<mapsto> v) ++ map_of (rev kvs)"
    by (rule ext) (simp add: kv map_add_def split: option.split)
  have ih: "parse_pairs (map query_pair kvs) (m(k \<mapsto> v)) = m(k \<mapsto> v) ++ map_of (rev kvs)"
    using Cons by simp
  show ?case by (simp only: st ih e)
qed

lemma intercalate_empty: "intercalate [c] ts = [] \<longleftrightarrow> ts = [] \<or> ts = [[]]"
  by (cases ts rule: remdups_adj.cases) auto

lemma parse_query_text:
  assumes "boost_contract B" and "\<forall>kv \<in> set kvs. plain_param kv"
  shows "parse_query B (query_text kvs) m = m ++ map_of (rev kvs)"
proof (cases "kvs = []")
  case True
  then show ?thesis by (simp add: parse_query_def query_text_def)
next
  case False
  have "query_text kvs \<noteq> []"
    using False by (auto simp: query_text_def intercalate_empty query_pair_def)
  moreover have "tokens_of ''&'' (query_text kvs) = map query_pair kvs"
    using assms(2) False unfolding query_text_def
    by (intro tokens_of_intercalate) (auto simp: query_pair_def plain_param_def)
  ultimately show ?thesis
    using parse_pairs_plain [OF assms(2)] boost_contractD(2) [OF assms(1)] by (simp add: parse_query_def)
qed

text \<open>The URI a client builds: the path, and names and values percent-encoded.\<close>

definition request_uri :: "string \<Rightarrow> (string \<times> string) list \<Rightarrow> string" where
  "request_uri api kvs =
     api @ ''?'' @ intercalate ''&'' (map (\<lambda>(k, v). url_encode k @ ''='' @ url_encode v) kvs)"

lemma url_loop_char: "c \<noteq> CHR ''%'' \<Longrightarrow> c \<noteq> CHR ''+'' \<Longrightarrow> url_loop out (c # t) = url_loop (out @ [c]) t"
  by simp

lemma url_loop_params:
  "url_loop out (intercalate ''&'' (map (\<lambda>(k, v). url_encode k @ ''='' @ url_encode v) kvs)) =
     (True, out @ query_text kvs)"
proof (induction kvs arbitrary: out)
  case Nil
  show ?case by (simp add: query_text_def)
next
  case (Cons kv kvs)
  obtain k v where kv: "kv = (k, v)" by (cases kv)
  have pair: "url_loop out (url_encode k @ ''='' @ url_encode v @ t) = url_loop (out @ query_pair kv) t" for t
    by (simp add: url_loop_encode kv query_pair_def)
  show ?case
  proof (cases "kvs = []")
    case True
    then show ?thesis using pair [of "[]"] by (simp add: kv query_text_def)
  next
    case False
    then show ?thesis
      using pair Cons.IH [of "out @ query_pair kv @ ''&''"]
      by (simp add: kv query_text_def intercalate_Cons)
  qed
qed

definition plain_path :: "string \<Rightarrow> bool" where
  "plain_path p \<longleftrightarrow> (\<forall>c \<in> set p. c \<noteq> CHR ''%'' \<and> c \<noteq> CHR ''+'' \<and> c \<noteq> CHR ''?'')"

lemma url_decode_request_uri:
  "plain_path api \<Longrightarrow> url_decode (request_uri api kvs) = (True, api @ ''?'' @ query_text kvs)"
  using url_loop_plain [of api "[]"] url_loop_params [of "api @ ''?''" kvs]
  by (simp add: url_decode_def request_uri_def plain_path_def)

lemma split_uri_request_uri:
  assumes "boost_contract B" and "plain_path api" and "\<forall>kv \<in> set kvs. plain_param kv"
  shows "split_uri B (request_uri api kvs) = (api, map_of (rev kvs))"
proof -
  have "str_find (api @ ''?'' @ query_text kvs) ''?'' 0 = Some (length api)"
    using str_find_char [of "CHR ''?''" api] assms(2) by (auto simp: plain_path_def)
  then show ?thesis
    using url_decode_request_uri [OF assms(2), of kvs] parse_query_text [OF assms(1,3), of Map.empty]
    by (simp add: split_uri_def rh_url_decode_util substr_def)
qed

lemma split_uri_none:
  assumes "\<not> fst (url_decode u) \<or> CHR ''?'' \<notin> set (snd (url_decode u))"
  shows "split_uri B u = ([], Map.empty)"
  using assms str_find_char_absent [of "CHR ''?''" "snd (url_decode u)"]
  by (auto simp: split_uri_def rh_url_decode_util split: prod.splits)

section \<open>The reply\<close>

lemma build_reply_Inr:
  assumes "build_reply L base rep ka = Inr rep'" and "boost_contract (lib_boost L)"
  shows "status rep' = Ok"
    and "rep_headers rep' =
      [header_make ''Content-Length'' (dec_string (length (rep_content rep'))),
       header_make ''Content-Type'' ''application/json; charset=UTF-8'',
       header_make ''Connection'' (if ka then ''Keep-Alive'' else ''close'')]"
  using assms(1) boost_contractD(4) [OF assms(2)]
  by (auto simp: build_reply_def Let_def split: option.splits)

lemma plain_length_header: "plain_header (header_make ''Content-Length'' (dec_string n))"
  using dec_string_digits [of n] by (auto simp: plain_header_def header_make_def isdigit_def)

lemma built_reply_framed:
  assumes "build_reply L base rep ka = Inr rep'" and "boost_contract (lib_boost L)"
    and "int (length (rep_content rep')) \<le> 2147483647"
  shows "read_reply (wire rep' @ rest) =
    Some (status_line Ok, rep_headers rep', rep_content rep', rest)"
proof -
  note b = build_reply_Inr [OF assms(1,2)]
  have "\<forall>h \<in> set (rep_headers rep'). plain_header h"
    unfolding b(2) using plain_length_header by (auto simp: plain_header_def header_make_def)
  moreover have "nat (atoi (find_header (rep_headers rep') ''Content-Length'')) = length (rep_content rep')"
    using atoi_dec_string [OF assms(3)] by (simp add: b(2) header_make_def)
  ultimately show ?thesis using read_reply_wire [of rep' rest] b(1) by simp
qed

lemma handle_request_built:
  assumes "handle_request L t req rep ka s = Inr (rep', s')"
  shows "\<exists>base. build_reply L base rep ka = Inr rep'"
  using assms by (auto simp: handle_request_def Let_def split: prod.splits sum.splits)

text \<open>Libraries and a request for the witnesses.\<close>

definition sample_libs :: "(jref, as_record option, unit) libs" where
  "sample_libs =
     \<lparr>lib_boost = boost_ref, lib_json = jref_lib, lib_as = cell_store, lib_zlib = no_zlib,
      lib_realloc = (\<lambda>n. True), lib_rounding = id,
      lib_clock = (\<lambda>w. (\<lparr>tv_sec = 0, tv_usec = 0\<rparr>, w))\<rparr>"

definition uri_request :: "string \<Rightarrow> request" where
  "uri_request u =
     \<lparr>method = ''GET'', uri = u, http_version_major = 1, http_version_minor = 1, headers = [],
      content = [], tstamp = 0\<rparr>"

definition status_text :: string where
  "status_text = jref_text (Obj [(''proxy_code'', Num 100), (''proxy_status'', Str ''OK''), (''took'', Real 0)])"

lemma sample_status:
  "handle_request sample_libs t (uri_request ''/status?'') (reply_new Ok) True (c, w) =
     Inr (\<lparr>status = Ok,
       rep_headers =
         [header_make ''Content-Length'' (dec_string (length status_text)),
          header_make ''Content-Type'' ''application/json; charset=UTF-8'',
          header_make ''Connection'' ''Keep-Alive''],
       rep_content = status_text\<rparr>, c, w)"
proof -
  have "split_uri boost_ref ''/status?'' = (''/status'', Map.empty)"
    using split_uri_request_uri [OF boost_ref_contract, of "''/status''" "[]"]
    by (simp add: request_uri_def plain_path_def)
  moreover have "to_lower_copy boost_ref ''/status'' = ''/status''"
    by (simp add: boost_ref_def tolower_def isupper_def)
  moreover have "c_str status_text = status_text"
    by (simp add: status_text_def c_str_def dec_eval)
  ultimately show ?thesis
    by (simp add: handle_request_def handle_api_def build_reply_def sample_libs_def uri_request_def
        jref_lib_def reply_new_def seconds_since_def seconds_def since_def diff_def now_def status_text_def
        boost_ref_def)
qed

lemma get_request_reply:
  assumes "boost_contract (lib_boost L)" and "jansson_contract (lib_json L)"
    and "\<And>j. json_dumps (lib_json L) j dump_flags \<noteq> None" and "\<And>q. json_real (lib_json L) q \<noteq> None"
    and "plain_path api" and "map tolower api = ''/get''"
    and "CHR ''&'' \<notin> set ns \<union> set st \<union> set k"
    and "uri req = request_uri api [(''ns'', ns), (''set'', st), (''key'', k)]"
    and "lib_clock L w = (tv0, w0)" and "rAsList c t = Some x"
    and "GET (lib_as L) (lib_json L) (lib_zlib L) (lib_realloc L) x ns st k (json_object (lib_json L)) 0 0 w0 =
      Inr (ret, x', res, ttl', gen', w1)"
    and "json_object_items (lib_json L) res \<noteq> []"
  shows "\<exists>rep' w2 base took dump.
    handle_request L t req rep ka (c, w) = Inr (rep', c\<lparr>rAsList := (rAsList c)(t \<mapsto> x')\<rparr>, w2) \<and>
    json_object_items (lib_json L) base = [(''results'', res), (''took'', took)] \<and>
    json_dumps (lib_json L) base dump_flags = Some dump \<and>
    rep_content rep' = rep_content rep @ c_str dump"
proof -
  let ?J = "lib_json L"
  let ?base = "json_object_set_new_nocheck ?J (json_object ?J) ''results'' (Some res)"
  have u: "split_uri (lib_boost L) (uri req) = (api, [''ns'' \<mapsto> ns, ''set'' \<mapsto> st, ''key'' \<mapsto> k])"
    unfolding assms(8) using assms(7)
    by (subst split_uri_request_uri [OF assms(1,5)]) (auto simp: plain_param_def)
  obtain tv1 w2 where clk: "lib_clock L w1 = (tv1, w2)" by fastforce
  obtain took where tk: "json_real ?J (seconds_since (lib_rounding L) tv1 (now tv0)) = Some took"
    using assms(4) by blast
  let ?base2 = "json_object_set_new_nocheck ?J ?base ''took'' (Some took)"
  obtain dump where tx: "json_dumps ?J ?base2 dump_flags = Some dump"
    using assms(3) by blast
  have it: "json_object_items ?J ?base2 = [(''results'', res), (''took'', took)]"
    by (simp add: jansson_contractD(1,2) [OF assms(2)])
  have "GetAsObject (lib_as L) t c w0 = (c, w0)"
    using assms(10) by (simp add: GetAsObject_def)
  then have api: "handle_api L t ''/get'' [''ns'' \<mapsto> ns, ''set'' \<mapsto> st, ''key'' \<mapsto> k] c w0 =
      Inr (?base, c\<lparr>rAsList := (rAsList c)(t \<mapsto> x')\<rparr>, w1)"
    using assms(10-12) by (simp add: handle_api_def handle_get_def map_get_def json_object_size_def)
  have "to_lower_copy (lib_boost L) api = ''/get''"
    using assms(6) by (simp add: boost_contractD(1) [OF assms(1)])
  then obtain rep' where
    "handle_request L t req rep ka (c, w) = Inr (rep', c\<lparr>rAsList := (rAsList c)(t \<mapsto> x')\<rparr>, w2)"
    "rep_content rep' = rep_content rep @ c_str dump"
    using u api clk tk tx assms(9) by (simp add: handle_request_def build_reply_def Let_def)
  with tx it show ?thesis by blast
qed

text \<open>What the handler looks at.\<close>

lemma map_of_filter_key: "P k \<Longrightarrow> map_of (filter (\<lambda>kv. P (fst kv)) kvs) k = map_of kvs k"
  by (induction kvs) auto

lemma handle_request_cong:
  assumes "split_uri (lib_boost L) (uri r) = (u, ps)" and "split_uri (lib_boost L) (uri r') = (u', ps')"
    and "to_lower_copy (lib_boost L) u = to_lower_copy (lib_boost L) u'"
    and "\<And>k. k \<in> {''ns'', ''set'', ''key''} \<Longrightarrow> ps k = ps' k"
  shows "handle_request L t r rep ka s = handle_request L t r' rep ka s"
proof -
  have "map_get ps ''ns'' d = map_get ps' ''ns'' d" "map_get ps ''set'' d = map_get ps' ''set'' d"
    "map_get ps ''key'' d = map_get ps' ''key'' d" for d
    using assms(4) by (simp_all add: map_get_def)
  then have "handle_get L t ps base c w = handle_get L t ps' base c w" for base c w
    by (simp only: handle_get_def)
  then have "handle_api L t api ps c w = handle_api L t api ps' c w" for api c w
    by (simp only: handle_api_def)
  then show ?thesis using assms(1-3) by (simp add: handle_request_def)
qed

section \<open>Properties\<close>

text \<open>
  C15: whatever the request, the reply of the handler is one a client can take off the connection: it
  reads the status line 200, the three headers and exactly the body, and finds the bytes behind
  the reply untouched; the \<open>Connection\<close> header tells what the connection will do.
\<close>

theorem handler_reply_framed:
  assumes "handle_request L t req rep ka s = Inr (rep', s')" and "boost_contract (lib_boost L)"
    and "int (length (rep_content rep')) \<le> 2147483647"
  shows "read_reply (wire rep' @ rest) =
      Some (''HTTP/1.1 200 OK'', rep_headers rep', rep_content rep', rest) \<and>
    find_header (rep_headers rep') ''Connection'' = (if ka then ''Keep-Alive'' else ''close'')"
proof -
  obtain base where b: "build_reply L base rep ka = Inr rep'"
    using handle_request_built [OF assms(1)] by blast
  have "status_line Ok = ''HTTP/1.1 200 OK''" by (simp add: status_line_def crlf_def)
  then show ?thesis
    using built_reply_framed [OF b assms(2,3), of rest] build_reply_Inr(2) [OF b assms(2)]
    by (simp add: header_make_def)
qed

lemma handler_reply_framed_witness:
  "\<exists>rep' s'. handle_request sample_libs (1 :: nat) (uri_request ''/status?'') (reply_new Ok) True (sample_control, None) =
       Inr (rep', s') \<and>
     read_reply (wire rep' @ ''next'') = Some (''HTTP/1.1 200 OK'', rep_headers rep', status_text, ''next'')"
proof -
  obtain rep' s' where h: "handle_request sample_libs (1 :: nat) (uri_request ''/status?'') (reply_new Ok) True
      (sample_control, None) = Inr (rep', s')" and c: "rep_content rep' = status_text"
    using sample_status [of 1 sample_control None] by simp
  have "int (length status_text) \<le> 2147483647"
    by (simp add: status_text_def dec_eval)
  then show ?thesis
    using handler_reply_framed [OF h, of "''next''"] boost_ref_contract h c
    by (simp add: sample_libs_def)
qed

text \<open>
  The parameters of a well-formed query are those the client encoded: for names and values
  without separators of their own, the handler sees the path and, of each name, the last value.
\<close>

theorem query_parameters:
  assumes "boost_contract B" and "plain_path api" and "\<forall>kv \<in> set kvs. plain_param kv"
  shows "split_uri B (request_uri api kvs) = (api, map_of (rev kvs))"
  using split_uri_request_uri [OF assms] .

lemma query_parameters_witness:
  "split_uri boost_ref (request_uri ''/GET'' [(''ns'', ''a b''), (''key'', ''1''), (''key'', ''2'')]) =
     (''/GET'', map_of [(''key'', ''2''), (''key'', ''1''), (''ns'', ''a b'')])"
  using query_parameters [OF boost_ref_contract, of "''/GET''"
      "[(''ns'', ''a b''), (''key'', ''1''), (''key'', ''2'')]"]
  by (simp add: plain_path_def plain_param_def)



text \<open>
  Percent-encoding does not protect a separator in a value: the URI is decoded before it is
  split, so a value \<open>v&k2=v2\<close>, encoded, arrives as the value \<open>v\<close> and a second parameter.
\<close>

theorem encoded_separator_splits:
  assumes "boost_contract B" and "plain_path api" and "plain_param (k, v)" and "plain_param (k2, v2)"
  shows "split_uri B (request_uri api [(k, v @ ''&'' @ k2 @ ''='' @ v2)]) =
    (api, [k \<mapsto> v, k2 \<mapsto> v2])"
proof -
  have q: "query_text [(k, v @ ''&'' @ k2 @ ''='' @ v2)] = query_text [(k, v), (k2, v2)]"
    by (simp add: query_text_def query_pair_def)
  have "str_find (api @ ''?'' @ query_text [(k, v), (k2, v2)]) ''?'' 0 = Some (length api)"
    using str_find_char [of "CHR ''?''" api] assms(2) by (auto simp: plain_path_def)
  moreover have d: "url_decode (request_uri api [(k, v @ ''&'' @ k2 @ ''='' @ v2)]) =
      (True, api @ ''?'' @ query_text [(k, v), (k2, v2)])"
    by (simp only: url_decode_request_uri [OF assms(2)] q)
  ultimately show ?thesis
    using parse_query_text [OF assms(1), of "[(k, v), (k2, v2)]" Map.empty] assms(3,4)
    unfolding split_uri_def rh_url_decode_util d by (simp add: substr_def)
qed

lemma encoded_separator_splits_witness:
  "split_uri boost_ref (request_uri ''/GET'' [(''set'', ''s&ns=other'')]) = (''/GET'', [''set'' \<mapsto> ''s'', ''ns'' \<mapsto> ''other''])"
  using encoded_separator_splits [OF boost_ref_contract, of "''/GET''" "''set''" "''s''" "''ns''" "''other''"]
  by (simp add: plain_path_def plain_param_def)

text \<open>
  A URI that does not decode, or whose decoded text has no question mark, is answered exactly as
  the empty URI is: \<open>/status\<close> without a question mark is not recognised.
\<close>

theorem uri_without_query:
  assumes "\<not> fst (url_decode (uri req)) \<or> CHR ''?'' \<notin> set (snd (url_decode (uri req)))"
  shows "handle_request L t req rep ka s = handle_request L t (req\<lparr>uri := []\<rparr>) rep ka s"
proof -
  have "split_uri (lib_boost L) [] = ([], Map.empty)"
    by (rule split_uri_none) (simp add: url_decode_def)
  then show ?thesis
    using split_uri_none [OF assms, of "lib_boost L"] by (simp add: handle_request_def)
qed

lemma uri_without_query_witness:
  "handle_request sample_libs (1 :: nat) (uri_request ''/status'') (reply_new Ok) True (sample_control, None) =
   handle_request sample_libs 1 ((uri_request ''/status'')\<lparr>uri := []\<rparr>) (reply_new Ok) True (sample_control, None)"
  by (rule uri_without_query) (simp add: uri_request_def url_decode_def)

text \<open>
  A request for \<open>/get\<close>, in any capitalisation, fetches the record its three parameters name with
  the object of the running thread, and when that gives any members the reply's body is the text
  of an object with the members \<open>results\<close>, holding them, and \<open>took\<close>.
\<close>

theorem get_request:
  assumes "boost_contract (lib_boost L)" and "jansson_contract (lib_json L)"
    and "\<And>j. json_dumps (lib_json L) j dump_flags \<noteq> None" and "\<And>q. json_real (lib_json L) q \<noteq> None"
    and "plain_path api" and "map tolower api = ''/get''"
    and "CHR ''&'' \<notin> set ns \<union> set st \<union> set k"
    and "uri req = request_uri api [(''ns'', ns), (''set'', st), (''key'', k)]"
    and "lib_clock L w = (tv0, w0)" and "rAsList c t = Some x"
    and "GET (lib_as L) (lib_json L) (lib_zlib L) (lib_realloc L) x ns st k (json_object (lib_json L)) 0 0 w0 =
      Inr (ret, x', res, ttl', gen', w1)"
    and "json_object_items (lib_json L) res \<noteq> []"
  shows "\<exists>rep' w2 base took dump.
    handle_request L t req rep ka (c, w) = Inr (rep', c\<lparr>rAsList := (rAsList c)(t \<mapsto> x')\<rparr>, w2) \<and>
    json_object_items (lib_json L) base = [(''results'', res), (''took'', took)] \<and>
    json_dumps (lib_json L) base dump_flags = Some dump \<and>
    rep_content rep' = rep_content rep @ c_str dump"
  using assms by (rule get_request_reply)

lemma get_request_witness:
  "\<exists>rep' s'. handle_request sample_libs (1 :: nat) (uri_request (request_uri ''/GET'' [(''ns'', ''n''), (''set'', ''s''), (''key'', ''k'')]))
     (reply_new Ok) True (sample_control\<lparr>rAsList := [1 \<mapsto> sample_object]\<rparr>,
       Some \<lparr>bins = [(''gender'', As_integer 1)], gen = 8, ttl = 60\<rparr>) = Inr (rep', s') \<and>
     rep_content rep' \<noteq> []"
proof -
  let ?w = "Some \<lparr>bins = [(''gender'', As_integer 1)], gen = 8, ttl = 60\<rparr>"
  have g: "\<exists>x' ttl' gen' w1. GET (lib_as sample_libs) (lib_json sample_libs) (lib_zlib sample_libs) (lib_realloc sample_libs)
      sample_object ''n'' ''s'' ''k'' (json_object (lib_json sample_libs)) 0 0 ?w =
      Inr (0, x', Obj [(''gender'', Num 1)], ttl', gen', w1)"
    by (simp add: GET_def sample_libs_def cell_store_def sample_object_def convert_bin_def jref_lib_def)
  have d: "c_str dump \<noteq> []" if "json_dumps jref_lib base dump_flags = Some dump" "obj_items base \<noteq> []" for base dump
    using that by (cases base) (auto simp: jref_lib_def c_str_def)
  have tl: "map tolower ''/GET'' = ''/get''"
    by (simp add: tolower_def isupper_def char_of_def bit_iff_odd)
  have j: "\<And>j. json_dumps (lib_json sample_libs) j dump_flags \<noteq> None"
    "\<And>q. json_real (lib_json sample_libs) q \<noteq> None" "boost_contract (lib_boost sample_libs)"
    "jansson_contract (lib_json sample_libs)" "lib_json sample_libs = jref_lib"
    "lib_clock sample_libs ?w = (\<lparr>tv_sec = 0, tv_usec = 0\<rparr>, ?w)"
    using jref_contract boost_ref_contract by (simp_all add: sample_libs_def jref_lib_def)
  obtain x' ttl' gen' w1 where g: "GET (lib_as sample_libs) (lib_json sample_libs) (lib_zlib sample_libs) (lib_realloc sample_libs)
      sample_object ''n'' ''s'' ''k'' (json_object (lib_json sample_libs)) 0 0 ?w =
      Inr (0, x', Obj [(''gender'', Num 1)], ttl', gen', w1)" using g by blast
  let ?c = "sample_control\<lparr>rAsList := [1 \<mapsto> sample_object]\<rparr>"
  let ?r = "uri_request (request_uri ''/GET'' [(''ns'', ''n''), (''set'', ''s''), (''key'', ''k'')])"
  have "\<exists>rep' w2 base took dump.
    handle_request sample_libs (1 :: nat) ?r (reply_new Ok) True (?c, ?w) =
      Inr (rep', ?c\<lparr>rAsList := (rAsList ?c)(1 \<mapsto> x')\<rparr>, w2) \<and>
    json_object_items (lib_json sample_libs) base = [(''results'', Obj [(''gender'', Num 1)]), (''took'', took)] \<and>
    json_dumps (lib_json sample_libs) base dump_flags = Some dump \<and>
    rep_content rep' = rep_content (reply_new Ok) @ c_str dump"
    by (rule get_request [OF j(3,4,1,2) _ tl _ _ j(6) _ g])
      (simp_all add: plain_path_def uri_request_def, simp add: jref_lib_def sample_libs_def)
  then show ?thesis
    using d by (fastforce simp: j(5) jref_lib_def reply_new_def)
qed

end
