(* ===== verification/Incremental.thy ===== *)
theory Incremental
  imports Prelude
begin

text \<open>
  The interface between a connection and the parser it drives. A connection hands the parser the
  buffers of successive reads, keeps the parser's state between them, and acts on the first
  result that is not indeterminate. \<open>feed\<close> is that loop over the buffers. The locale states what
  the connection relies on: the parser consumes its input from the left, cutting the input
  changes nothing, an invariant links the parser with the request it fills, and what it accepts
  is a complete request.
\<close>

type_synonym ('p, 'r) parsed = "(bool option \<times> 'p \<times> 'r \<times> string) outcome"

fun feed :: "('p \<Rightarrow> 'r \<Rightarrow> string \<Rightarrow> ('p, 'r) parsed) \<Rightarrow> 'p \<Rightarrow> 'r \<Rightarrow> string list \<Rightarrow> ('p, 'r) parsed" where
  "feed prs p r [] = Inr (None, p, r, [])"
| "feed prs p r (b # bs) =
     (case prs p r b of
        Inl e \<Rightarrow> Inl e
      | Inr (None, p', r', rest) \<Rightarrow> feed prs p' r' bs
      | Inr (Some v, p', r', rest) \<Rightarrow> Inr (Some v, p', r', rest @ concat bs))"

locale incremental_parser =
  fixes prs :: "'p \<Rightarrow> 'r \<Rightarrow> string \<Rightarrow> ('p, 'r) parsed"
    and inv :: "'p \<Rightarrow> 'r \<Rightarrow> bool"
    and complete :: "'r \<Rightarrow> bool"
  assumes prs_nil: "prs p r [] = Inr (None, p, r, [])"
    and prs_append: "prs p r (xs @ ys) =
      (case prs p r xs of
         Inl e \<Rightarrow> Inl e
       | Inr (None, p', r', rest) \<Rightarrow> prs p' r' ys
       | Inr (Some v, p', r', rest) \<Rightarrow> Inr (Some v, p', r', rest @ ys))"
    and prs_inv: "inv p r \<Longrightarrow> prs p r xs = Inr (None, p', r', rest) \<Longrightarrow> inv p' r'"
    and prs_complete: "inv p r \<Longrightarrow> prs p r xs = Inr (Some True, p', r', rest) \<Longrightarrow> complete r'"
begin

lemma prs_pending_rest:
  assumes "prs p r xs = Inr (None, p', r', rest)"
  shows "prs p r (xs @ ys) = prs p' r' ys"
  using assms by (simp add: prs_append)

lemma feed_concat:
  assumes "\<And>p r xs p' r' rest. prs p r xs = Inr (None, p', r', rest) \<Longrightarrow> rest = []"
  shows "feed prs p r bs = prs p r (concat bs)"
proof (induction bs arbitrary: p r)
  case Nil
  show ?case by (simp add: prs_nil)
next
  case (Cons b bs)
  then show ?case
    by (auto simp: prs_append split: sum.split option.split)
qed

lemma feed_inv:
  "inv p r \<Longrightarrow> feed prs p r bs = Inr (None, p', r', rest) \<Longrightarrow> inv p' r'"
proof (induction bs arbitrary: p r)
  case Nil
  then show ?case by simp
next
  case (Cons b bs)
  then show ?case
    by (auto split: sum.splits option.splits dest: prs_inv)
qed

lemma feed_complete:
  "inv p r \<Longrightarrow> feed prs p r bs = Inr (Some True, p', r', rest) \<Longrightarrow> complete r'"
proof (induction bs arbitrary: p r rest)
  case Nil
  then show ?case by simp
next
  case (Cons b bs)
  then obtain v p1 r1 rest1 where b: "prs p r b = Inr (v, p1, r1, rest1)"
    by (cases "prs p r b") auto
  show ?case
  proof (cases v)
    case None
    with b Cons.prems have "inv p1 r1" "feed prs p1 r1 bs = Inr (Some True, p', r', rest)"
      by (auto dest: prs_inv)
    then show ?thesis by (rule Cons.IH)
  next
    case (Some a)
    with b Cons.prems show ?thesis by (auto dest: prs_complete)
  qed
qed

end

end
