(* ===== verification/Request_Parser.thy ===== *)
theory Request_Parser
  imports Http_Message C_Stdlib Incremental
begin

text \<open>
  \<open>include/request_parser.hpp\<close> and \<open>src/request_parser.cpp\<close>: the character-by-character HTTP
  request parser. \<open>consume\<close> is the source's switch, one branch per state; its result is the
  \<open>boost::tribool\<close> as a \<open>bool option\<close> (\<open>None\<close> for \<open>indeterminate\<close>) with the parser and the
  request after the call, or the undefined behaviour the call runs into. \<open>parse\<close> is the loop
  over a buffer, which stops at the first result that is not indeterminate and reports the input
  that is left.

  The lemmas: the one-step behaviour; \<open>parser_inv\<close>, what the parser and the request it fills
  satisfy between any two characters, kept by every step; what an accepted request satisfies;
  and that parsing a stream in pieces is parsing it at once.
\<close>

section \<open>The parser\<close>

datatype parser_state =
    Method_start
  | Method
  | Uri
  | Http_version_h
  | Http_version_t_1
  | Http_version_t_2
  | Http_version_p
  | Http_version_slash
  | Http_version_major_start
  | Http_version_major
  | Http_version_minor_start
  | Http_version_minor
  | Expecting_newline_1
  | Header_line_start
  | Header_lws
  | Header_name
  | Space_before_header_value
  | Header_value
  | Expecting_newline_2
  | Expecting_newline_3
  | Body

record request_parser =
  state :: parser_state
  body_bytes :: "32 word"

text \<open>The constructor sets \<open>state_\<close> only: \<open>junk\<close> is what \<open>body_bytes_\<close> happens to hold.\<close>

definition new_parser :: "32 word \<Rightarrow> request_parser" where
  "new_parser junk = \<lparr>state = Method_start, body_bytes = junk\<rparr>"

definition parser_reset :: "request_parser \<Rightarrow> request_parser" where
  "parser_reset p = p\<lparr>state := Method_start\<rparr>"

definition is_char :: "int \<Rightarrow> bool" where
  "is_char c \<longleftrightarrow> c \<ge> 0 \<and> c \<le> 127"

definition is_ctl :: "int \<Rightarrow> bool" where
  "is_ctl c \<longleftrightarrow> (c \<ge> 0 \<and> c \<le> 31) \<or> c = 127"

definition is_tspecial :: "int \<Rightarrow> bool" where
  "is_tspecial c \<longleftrightarrow>
     c \<in> set (map schar
       [CHR ''('', CHR '')'', CHR ''<'', CHR ''>'', CHR ''@'',
        CHR '','', CHR '';'', CHR '':'', CHR 0x5C, CHR 0x22,
        CHR ''/'', CHR ''['', CHR '']'', CHR ''?'', CHR ''='',
        CHR ''{'', CHR ''}'', CHR '' '', CHR 0x09])"

definition is_digit :: "int \<Rightarrow> bool" where
  "is_digit c \<longleftrightarrow> c \<ge> schar (CHR ''0'') \<and> c \<le> schar (CHR ''9'')"

text \<open>\<open>v * 10 + input - '0'\<close> in \<open>int\<close>, evaluated from the left, each step checked for overflow.\<close>

definition add_digit :: "int \<Rightarrow> char \<Rightarrow> int outcome" where
  "add_digit v input =
     (let t = v * 10; u = t + schar input; w = u - schar (CHR ''0'')
      in if in_int32 t \<and> in_int32 u \<and> in_int32 w then Inr w else Inl Signed_overflow)"

text \<open>\<open>req.headers.back().name.push_back(c)\<close> and the same for the value.\<close>

definition push_back_name :: "request \<Rightarrow> char \<Rightarrow> request outcome" where
  "push_back_name req c =
     (if headers req = [] then Inl Back_of_empty_vector
      else Inr (req\<lparr>headers := butlast (headers req) @
             [last (headers req)\<lparr>hname := hname (last (headers req)) @ [c]\<rparr>]\<rparr>))"

definition push_back_value :: "request \<Rightarrow> char \<Rightarrow> request outcome" where
  "push_back_value req c =
     (if headers req = [] then Inl Back_of_empty_vector
      else Inr (req\<lparr>headers := butlast (headers req) @
             [last (headers req)\<lparr>hvalue := hvalue (last (headers req)) @ [c]\<rparr>]\<rparr>))"

type_synonym consumed = "bool option \<times> request_parser \<times> request"

text \<open>\<open>return false\<close>, and \<open>state_ = s; return boost::indeterminate\<close>.\<close>

definition reject :: "request_parser \<Rightarrow> request \<Rightarrow> consumed outcome" where
  "reject p req = Inr (Some False, p, req)"

definition goto :: "request_parser \<Rightarrow> parser_state \<Rightarrow> request \<Rightarrow> consumed outcome" where
  "goto p s req = Inr (None, p\<lparr>state := s\<rparr>, req)"

definition not_token :: "char \<Rightarrow> bool" where
  "not_token input \<longleftrightarrow>
     \<not> is_char (schar input) \<or> is_ctl (schar input) \<or> is_tspecial (schar input)"

text \<open>The states that read a header line and the body, one function for each of the longer cases of the
  switch, unfolded by the simplifier.\<close>

definition consume_header_line_start :: "request_parser \<Rightarrow> request \<Rightarrow> char \<Rightarrow> consumed outcome" where
  [simp]: "consume_header_line_start p req input =
     (if input = CHR 0x0D then goto p Expecting_newline_3 req
     else if headers req \<noteq> [] \<and> (input = CHR '' '' \<or> input = CHR 0x09) then
       goto p Header_lws req
     else if not_token input then reject p req
     else
       (case push_back_name (req\<lparr>headers := headers req @ [header_empty]\<rparr>) (tolower input) of
          Inl e \<Rightarrow> Inl e
        | Inr req' \<Rightarrow> goto p Header_name req'))"

definition consume_header_lws :: "request_parser \<Rightarrow> request \<Rightarrow> char \<Rightarrow> consumed outcome" where
  [simp]: "consume_header_lws p req input =
     (if input = CHR 0x0D then goto p Expecting_newline_2 req
     else if input = CHR '' '' \<or> input = CHR 0x09 then goto p Header_lws req
     else if is_ctl (schar input) then reject p req
     else
       (case push_back_value req input of
          Inl e \<Rightarrow> Inl e
        | Inr req' \<Rightarrow> goto p Header_value req'))"

definition consume_header_name :: "request_parser \<Rightarrow> request \<Rightarrow> char \<Rightarrow> consumed outcome" where
  [simp]: "consume_header_name p req input =
     (if input = CHR '':'' then goto p Space_before_header_value req
     else if not_token input then reject p req
     else
       (case push_back_name req (tolower input) of
          Inl e \<Rightarrow> Inl e
        | Inr req' \<Rightarrow> goto p Header_name req'))"

definition consume_space_before_header_value :: "request_parser \<Rightarrow> request \<Rightarrow> char \<Rightarrow> consumed outcome" where
  [simp]: "consume_space_before_header_value p req input =
     (if input = CHR '' '' then goto p Header_value req else reject p req)"

definition consume_header_value :: "request_parser \<Rightarrow> request \<Rightarrow> char \<Rightarrow> consumed outcome" where
  [simp]: "consume_header_value p req input =
     (if input = CHR 0x0D then goto p Expecting_newline_2 req
     else if is_ctl (schar input) then reject p req
     else
       (case push_back_value req input of
          Inl e \<Rightarrow> Inl e
        | Inr req' \<Rightarrow> goto p Header_value req'))"

definition consume_expecting_newline_2 :: "request_parser \<Rightarrow> request \<Rightarrow> char \<Rightarrow> consumed outcome" where
  [simp]: "consume_expecting_newline_2 p req input =
     (if input = CHR 0x0A then goto p Header_line_start req else reject p req)"

definition consume_end_of_headers :: "request_parser \<Rightarrow> request \<Rightarrow> char \<Rightarrow> consumed outcome" where
  [simp]: "consume_end_of_headers p req input =
     (let have_newline = (input = CHR 0x0A);
          clen = atoi (get_header req ''content-length'')
      in if have_newline \<and> clen > 0 then
           (if clen > 16 * 1024 * 1024 then reject p req
            else goto (p\<lparr>body_bytes := word_of_int clen\<rparr>) Body req)
         else Inr (Some have_newline, p, req))"

definition consume_body :: "request_parser \<Rightarrow> request \<Rightarrow> char \<Rightarrow> consumed outcome" where
  [simp]: "consume_body p req input =
     (let req' = req\<lparr>content := content req @ [input]\<rparr>;
          p' = p\<lparr>body_bytes := body_bytes p - 1\<rparr>
      in if body_bytes p' = 0 then Inr (Some True, p', req') else Inr (None, p', req'))"

text \<open>The switch over the states.\<close>

fun consume_in :: "parser_state \<Rightarrow> request_parser \<Rightarrow> request \<Rightarrow> char \<Rightarrow> consumed outcome" where
  "consume_in Method_start p req input =
     (if not_token input then reject p req
     else goto p Method (req\<lparr>method := method req @ [input]\<rparr>))"
| "consume_in Method p req input =
     (if input = CHR '' '' then goto p Uri req
     else if not_token input then reject p req
     else goto p Method (req\<lparr>method := method req @ [input]\<rparr>))"
| "consume_in Uri p req input =
     (if input = CHR '' '' then goto p Http_version_h req
     else if is_ctl (schar input) then reject p req
     else goto p Uri (req\<lparr>uri := uri req @ [input]\<rparr>))"
| "consume_in Http_version_h p req input =
     (if input = CHR ''H'' then goto p Http_version_t_1 req else reject p req)"
| "consume_in Http_version_t_1 p req input =
     (if input = CHR ''T'' then goto p Http_version_t_2 req else reject p req)"
| "consume_in Http_version_t_2 p req input =
     (if input = CHR ''T'' then goto p Http_version_p req else reject p req)"
| "consume_in Http_version_p p req input =
     (if input = CHR ''P'' then goto p Http_version_slash req else reject p req)"
| "consume_in Http_version_slash p req input =
     (if input = CHR ''/'' then
       goto p Http_version_major_start
         (req\<lparr>http_version_major := 0, http_version_minor := 0\<rparr>)
     else reject p req)"
| "consume_in Http_version_major_start p req input =
     (if is_digit (schar input) then
       (case add_digit (http_version_major req) input of
          Inl e \<Rightarrow> Inl e
        | Inr v \<Rightarrow> goto p Http_version_major (req\<lparr>http_version_major := v\<rparr>))
     else reject p req)"
| "consume_in Http_version_major p req input =
     (if input = CHR ''.'' then goto p Http_version_minor_start req
     else if is_digit (schar input) then
       (case add_digit (http_version_major req) input of
          Inl e \<Rightarrow> Inl e
        | Inr v \<Rightarrow> goto p Http_version_major (req\<lparr>http_version_major := v\<rparr>))
     else reject p req)"
| "consume_in Http_version_minor_start p req input =
     (if is_digit (schar input) then
       (case add_digit (http_version_minor req) input of
          Inl e \<Rightarrow> Inl e
        | Inr v \<Rightarrow> goto p Http_version_minor (req\<lparr>http_version_minor := v\<rparr>))
     else reject p req)"
| "consume_in Http_version_minor p req input =
     (if input = CHR 0x0D then goto p Expecting_newline_1 req
     else if is_digit (schar input) then
       (case add_digit (http_version_minor req) input of
          Inl e \<Rightarrow> Inl e
        | Inr v \<Rightarrow> goto p Http_version_minor (req\<lparr>http_version_minor := v\<rparr>))
     else reject p req)"
| "consume_in Expecting_newline_1 p req input =
     (if input = CHR 0x0A then goto p Header_line_start req else reject p req)"
| "consume_in Header_line_start p req input = consume_header_line_start p req input"
| "consume_in Header_lws p req input = consume_header_lws p req input"
| "consume_in Header_name p req input = consume_header_name p req input"
| "consume_in Space_before_header_value p req input = consume_space_before_header_value p req input"
| "consume_in Header_value p req input = consume_header_value p req input"
| "consume_in Expecting_newline_2 p req input = consume_expecting_newline_2 p req input"
| "consume_in Expecting_newline_3 p req input = consume_end_of_headers p req input"
| "consume_in Body p req input = consume_body p req input"

definition consume :: "request_parser \<Rightarrow> request \<Rightarrow> char \<Rightarrow> consumed outcome" where
  "consume p req input = consume_in (state p) p req input"

fun parse :: "request_parser \<Rightarrow> request \<Rightarrow> string \<Rightarrow>
    (bool option \<times> request_parser \<times> request \<times> string) outcome" where
  "parse p req [] = Inr (None, p, req, [])"
| "parse p req (c # cs) =
     (case consume p req c of
        Inl e \<Rightarrow> Inl e
      | Inr (Some b, p', req') \<Rightarrow> Inr (Some b, p', req', cs)
      | Inr (None, p', req') \<Rightarrow> parse p' req' cs)"

section \<open>Character classes by code\<close>

lemma schar_eq_uchar: "schar c = schar d \<longleftrightarrow> uchar c = uchar d"
  by simp

lemma is_digit_iff [char_class]: "is_digit (schar c) \<longleftrightarrow> isdigit c"
  using uchar_less [of c] by (auto simp: is_digit_def isdigit_def schar_def)

lemma is_ctl_iff [char_class]: "is_ctl (schar c) \<longleftrightarrow> uchar c \<le> 31 \<or> uchar c = 127"
  using uchar_less [of c] by (auto simp: is_ctl_def schar_def)

lemma not_token_iff [char_class]:
  "not_token c \<longleftrightarrow> uchar c \<le> 32 \<or> 127 \<le> uchar c \<or>
     uchar c \<in> {34, 40, 41, 44, 47, 58, 59, 60, 61, 62, 63, 64, 91, 92, 93, 123, 125}"
proof -
  have tspecial: "is_tspecial (schar c) \<longleftrightarrow>
      uchar c \<in> {40, 41, 60, 62, 64, 44, 59, 58, 92, 34, 47, 91, 93, 63, 61, 123, 125, 32, 9}"
    unfolding is_tspecial_def
    by (simp add: schar_eq_uchar del: schar_inj uchar_inj)
  have char: "is_char (schar c) \<longleftrightarrow> uchar c \<le> 127"
    using uchar_less [of c] by (auto simp: is_char_def schar_def)
  show ?thesis unfolding not_token_def tspecial char is_ctl_iff by auto
qed

lemma not_token_tolower [simp]: "not_token (tolower c) \<longleftrightarrow> not_token c"
  by (auto simp: not_token_iff uchar_tolower isupper_def)

lemma token_facts:
  assumes "\<not> not_token c"
  shows "c \<noteq> CHR '' ''" "c \<noteq> CHR 0x09" "c \<noteq> CHR 0x0D" "c \<noteq> CHR '':''" "\<not> is_ctl (schar c)"
  using assms by (auto simp: not_token_iff is_ctl_iff)

lemma text_char_facts:
  assumes "\<not> is_ctl (schar c)"
  shows "c \<noteq> CHR 0x0D" "c \<noteq> CHR 0x0A" "c \<noteq> CHR 0x09"
  using assms by (auto simp: is_ctl_iff)

lemma isdigit_facts:
  assumes "isdigit c"
  shows "c \<noteq> CHR ''.''" "c \<noteq> CHR 0x0D"
  using assms by (auto simp: isdigit_def)

lemma add_digit_ok:
  assumes "isdigit c" and "0 \<le> v" and "v * 10 + int (uchar c - 48) \<le> 2147483599"
  shows "add_digit v c = Inr (v * 10 + int (uchar c - 48))"
  using assms by (simp add: add_digit_def in_int32_def isdigit_def schar_def of_nat_diff)

lemma add_digit_bounds:
  assumes "add_digit v c = Inr w" and "isdigit c" and "0 \<le> v"
  shows "0 \<le> w \<and> w \<le> 2147483599"
  using assms by (auto simp: add_digit_def in_int32_def isdigit_def schar_def Let_def split: if_splits)

lemma add_digit_overflow:
  assumes "isdigit c" and "0 \<le> v"
  shows "add_digit v c = Inl e \<longleftrightarrow> e = Signed_overflow \<and> 2147483647 < v * 10 + int (uchar c)"
  using assms by (auto simp: add_digit_def in_int32_def isdigit_def schar_def Let_def)

section \<open>What the parser maintains\<close>

definition wf_header :: "header \<Rightarrow> bool" where
  "wf_header h \<longleftrightarrow>
     hname h \<noteq> [] \<and> (\<forall>c \<in> set (hname h). \<not> not_token c \<and> tolower c = c) \<and>
     (\<forall>c \<in> set (hvalue h). \<not> is_ctl (schar c))"

definition version_ok :: "int \<Rightarrow> bool" where
  "version_ok v \<longleftrightarrow> 0 \<le> v \<and> v \<le> 2147483599"

definition content_length :: "request \<Rightarrow> int" where
  "content_length req = atoi (get_header req ''content-length'')"

definition line_ok :: "request \<Rightarrow> bool" where
  "line_ok r \<longleftrightarrow>
     (\<forall>c \<in> set (method r). \<not> not_token c) \<and>
     (\<forall>c \<in> set (uri r). c \<noteq> CHR '' '' \<and> \<not> is_ctl (schar c))"

definition line_part :: "parser_state \<Rightarrow> request \<Rightarrow> bool" where
  "line_part s r \<longleftrightarrow>
     line_ok r \<and>
     (case s of
        Method_start \<Rightarrow> method r = [] \<and> uri r = []
      | Method \<Rightarrow> method r \<noteq> [] \<and> uri r = []
      | _ \<Rightarrow> method r \<noteq> [])"

definition version_part :: "parser_state \<Rightarrow> request \<Rightarrow> bool" where
  "version_part s r \<longleftrightarrow>
     (case s of
        Http_version_major_start \<Rightarrow> http_version_major r = 0 \<and> http_version_minor r = 0
      | Http_version_major \<Rightarrow> version_ok (http_version_major r) \<and> http_version_minor r = 0
      | Http_version_minor_start \<Rightarrow> version_ok (http_version_major r) \<and> http_version_minor r = 0
      | _ \<Rightarrow>
        s \<in> {Method_start, Method, Uri, Http_version_h, Http_version_t_1, Http_version_t_2,
           Http_version_p, Http_version_slash} \<or>
        version_ok (http_version_major r) \<and> version_ok (http_version_minor r))"

definition header_part :: "parser_state \<Rightarrow> request \<Rightarrow> bool" where
  "header_part s r \<longleftrightarrow>
     (case s of
        Header_name \<Rightarrow>
          headers r \<noteq> [] \<and> (\<forall>h \<in> set (headers r). wf_header h) \<and> hvalue (last (headers r)) = []
      | Header_lws \<Rightarrow> headers r \<noteq> [] \<and> (\<forall>h \<in> set (headers r). wf_header h)
      | Space_before_header_value \<Rightarrow> headers r \<noteq> [] \<and> (\<forall>h \<in> set (headers r). wf_header h)
      | Header_value \<Rightarrow> headers r \<noteq> [] \<and> (\<forall>h \<in> set (headers r). wf_header h)
      | Expecting_newline_2 \<Rightarrow> headers r \<noteq> [] \<and> (\<forall>h \<in> set (headers r). wf_header h)
      | Header_line_start \<Rightarrow> (\<forall>h \<in> set (headers r). wf_header h)
      | Expecting_newline_3 \<Rightarrow> (\<forall>h \<in> set (headers r). wf_header h)
      | Body \<Rightarrow> (\<forall>h \<in> set (headers r). wf_header h)
      | _ \<Rightarrow> headers r = [])"

definition body_part :: "request_parser \<Rightarrow> request \<Rightarrow> bool" where
  "body_part p r \<longleftrightarrow>
     (if state p = Body then
        content_length r \<le> 16 * 1024 * 1024 \<and> body_bytes p \<noteq> 0 \<and>
        int (length (content r)) + uint (body_bytes p) = content_length r
      else content r = [])"

definition parser_inv :: "request_parser \<Rightarrow> request \<Rightarrow> bool" where
  "parser_inv p r \<longleftrightarrow>
     line_part (state p) r \<and> version_part (state p) r \<and> header_part (state p) r \<and> body_part p r"

text \<open>What the requests are that the parser hands over.\<close>

definition wf_request :: "request \<Rightarrow> bool" where
  "wf_request r \<longleftrightarrow>
     method r \<noteq> [] \<and> line_ok r \<and>
     version_ok (http_version_major r) \<and> version_ok (http_version_minor r) \<and>
     (\<forall>h \<in> set (headers r). wf_header h) \<and>
     content_length r \<le> 16 * 1024 * 1024 \<and>
     int (length (content r)) = max 0 (content_length r)"

lemma parser_inv_start: "fresh_request r \<Longrightarrow> state p = Method_start \<Longrightarrow> parser_inv p r"
  by (simp add: parser_inv_def line_part_def line_ok_def version_part_def header_part_def
      body_part_def fresh_request_def)

lemma parser_inv_reset: "fresh_request r \<Longrightarrow> parser_inv (parser_reset p) r"
  by (simp add: parser_inv_start parser_reset_def)

lemma wf_header_push_name:
  "wf_header h \<Longrightarrow> \<not> not_token c \<Longrightarrow> wf_header (h\<lparr>hname := hname h @ [tolower c]\<rparr>)"
  by (auto simp: wf_header_def)

lemma wf_header_push_value:
  "wf_header h \<Longrightarrow> \<not> is_ctl (schar c) \<Longrightarrow> wf_header (h\<lparr>hvalue := hvalue h @ [c]\<rparr>)"
  by (auto simp: wf_header_def)

lemma header_empty_simps [simp]: "hname header_empty = []" "hvalue header_empty = []"
  by (simp_all add: header_empty_def)

lemma wf_header_first:
  "\<not> not_token c \<Longrightarrow> wf_header (header_empty\<lparr>hname := [tolower c]\<rparr>)"
  by (auto simp: wf_header_def header_empty_def)

lemma body_step:
  fixes b :: "32 word"
  assumes "b \<noteq> 0"
  shows "uint (b - 1) = uint b - 1"
proof -
  have "unat b \<noteq> 0" using assms by (simp add: unat_eq_zero)
  then have "unat (b - 1) = unat b - 1" by (simp add: unat_minus_one assms)
  with \<open>unat b \<noteq> 0\<close> have "int (unat (b - 1)) = int (unat b) - 1" by simp
  then show ?thesis by simp
qed

lemma content_length_cong: "headers r = headers r' \<Longrightarrow> content_length r = content_length r'"
  by (simp add: content_length_def get_header_def)

lemmas part_defs = parser_inv_def line_part_def line_ok_def version_part_def header_part_def body_part_def

lemmas step_defs = consume_def goto_def reject_def

text \<open>The request line: everything up to the end of the version.\<close>

lemma consume_inv_line:
  assumes "parser_inv p r" and "consume p r c = Inr (None, p', r')"
    and "state p \<in> {Method_start, Method, Uri, Http_version_h, Http_version_t_1,
      Http_version_t_2, Http_version_p, Http_version_slash}"
  shows "parser_inv p' r'"
  using assms
  by (cases "state p"; clarsimp simp: step_defs split: if_splits)
    (auto simp: part_defs version_ok_def)

lemma consume_inv_version:
  assumes "parser_inv p r" and "consume p r c = Inr (None, p', r')"
    and "state p \<in> {Http_version_major_start, Http_version_major, Http_version_minor_start,
      Http_version_minor, Expecting_newline_1}"
  shows "parser_inv p' r'"
  using assms
  by (cases "state p"; clarsimp simp: step_defs is_digit_iff split: if_splits sum.splits)
    (auto simp: part_defs version_ok_def dest: add_digit_bounds)

lemma content_length_fold: "atoi (get_header r ''content-length'') = content_length r"
  by (simp add: content_length_def)

lemma content_length_upd [simp]: "content_length (r\<lparr>content := x\<rparr>) = content_length r"
  by (simp add: content_length_def get_header_def)

lemma length_word:
  assumes "0 < i" and "i \<le> 16777216"
  shows "word_of_int i \<noteq> (0 :: 32 word)" and "uint (word_of_int i :: 32 word) = i"
proof -
  show "uint (word_of_int i :: 32 word) = i"
    using assms by (simp add: uint_word_of_int)
  then show "word_of_int i \<noteq> (0 :: 32 word)"
    using assms(1) by (metis less_irrefl unsigned_0)
qed

lemma back_facts:
  assumes "hs \<noteq> []" and "Ball (set hs) wf_header"
  shows "wf_header (last hs)" and "Ball (set (butlast hs)) wf_header"
  using assms by (auto dest: in_set_butlastD)

lemma consume_inv_header:
  assumes "parser_inv p r" and "consume p r c = Inr (None, p', r')"
    and "state p \<in> {Header_line_start, Header_lws, Header_name, Space_before_header_value,
      Header_value, Expecting_newline_2}"
  shows "parser_inv p' r'"
  using assms
  by (cases "state p"; clarsimp simp: step_defs push_back_name_def push_back_value_def
        split: if_splits)
    (simp_all add: part_defs wf_header_push_name wf_header_push_value wf_header_first back_facts)

lemma consume_inv_body:
  assumes "parser_inv p r" and "consume p r c = Inr (None, p', r')"
    and "state p \<in> {Expecting_newline_3, Body}"
  shows "parser_inv p' r'"
  using assms
  by (cases "state p"; clarsimp simp: step_defs Let_def content_length_fold split: if_splits)
    (simp_all add: part_defs length_word body_step)

lemma consume_inv:
  assumes "parser_inv p r" and "consume p r c = Inr (None, p', r')"
  shows "parser_inv p' r'"
  using assms consume_inv_line consume_inv_version consume_inv_header consume_inv_body
  by (cases "state p") blast+

lemma consume_accept:
  assumes "parser_inv p r" and "consume p r c = Inr (Some True, p', r')"
  shows "wf_request r'"
  using assms
  by (cases "state p"; clarsimp simp: step_defs push_back_name_def push_back_value_def Let_def
        content_length_fold split: if_splits sum.splits)
    (auto simp: part_defs wf_request_def)

lemma consume_ub:
  assumes "parser_inv p r" and "consume p r c = Inl e"
  shows "e = Signed_overflow \<and>
    (state p = Http_version_major \<and> 214748360 \<le> http_version_major r \<or>
     state p = Http_version_minor \<and> 214748360 \<le> http_version_minor r)"
  using assms
  by (cases "state p"; clarsimp simp: step_defs push_back_name_def push_back_value_def Let_def
        is_digit_iff split: if_splits sum.splits)
    (simp_all add: part_defs version_ok_def add_digit_overflow isdigit_def)
section \<open>Whole buffers\<close>

lemma parse_append:
  "parse p r (xs @ ys) =
     (case parse p r xs of
        Inl e \<Rightarrow> Inl e
      | Inr (None, p', r', rest) \<Rightarrow> parse p' r' ys
      | Inr (Some v, p', r', rest) \<Rightarrow> Inr (Some v, p', r', rest @ ys))"
  by (induction p r xs rule: parse.induct) (auto split: sum.splits option.splits)

lemma parse_pending_rest: "parse p r xs = Inr (None, p', r', rest) \<Longrightarrow> rest = []"
  by (induction p r xs rule: parse.induct) (auto split: sum.splits option.splits)

lemma parse_inv:
  "parser_inv p r \<Longrightarrow> parse p r xs = Inr (None, p', r', rest) \<Longrightarrow> parser_inv p' r'"
  by (induction p r xs rule: parse.induct)
    (auto split: sum.splits option.splits dest: consume_inv)

lemma parse_accept:
  "parser_inv p r \<Longrightarrow> parse p r xs = Inr (Some True, p', r', rest) \<Longrightarrow> wf_request r'"
  by (induction p r xs rule: parse.induct)
    (auto split: sum.splits option.splits, blast intro: consume_inv, blast intro: consume_accept)

lemma parse_ub:
  "parser_inv p r \<Longrightarrow> parse p r xs = Inl e \<Longrightarrow> e = Signed_overflow"
  by (induction p r xs rule: parse.induct)
    (auto split: sum.splits option.splits dest: consume_inv consume_ub)

lemma parse_stops:
  "parse p r xs = Inr (Some v, p', r', rest) \<Longrightarrow> \<exists>used. used \<noteq> [] \<and> xs = used @ rest"
proof (induction p r xs rule: parse.induct)
  case (1 p r)
  then show ?case by simp
next
  case (2 p r c cs)
  then show ?case
    by (cases "consume p r c") (force split: option.splits)+
qed

interpretation http: incremental_parser parse parser_inv wf_request
  by unfold_locales
    (simp, rule parse_append, erule (1) parse_inv, erule (1) parse_accept)

end
