(* ===== verification/Parser_Roundtrip.thy ===== *)
theory Parser_Roundtrip
  imports Request_Parser
begin

text \<open>
  The reference printer of HTTP requests and the round trip with the parser of
  \<open>src/request_parser.cpp\<close>: the parser reads back exactly the request that was printed, leaves
  what follows it in the buffer, and the requests it accepts are exactly the printable ones.
\<close>

section \<open>The printer\<close>

definition render_header :: "header \<Rightarrow> string" where
  "render_header h = hname h @ '': '' @ hvalue h @ crlf"

definition render_line :: "request \<Rightarrow> string" where
  "render_line r =
     method r @ '' '' @ uri r @ '' HTTP/'' @ dec_string (nat (http_version_major r)) @ ''.'' @
     dec_string (nat (http_version_minor r)) @ crlf"

definition render :: "request \<Rightarrow> string" where
  "render r = render_line r @ concat (map render_header (headers r)) @ crlf @ content r"

lemma version_upd_same:
  "http_version_major r = v \<Longrightarrow> r\<lparr>http_version_major := v\<rparr> = r"
  "http_version_minor r = v \<Longrightarrow> r\<lparr>http_version_minor := v\<rparr> = r"
  by (cases r, simp)+

lemma headers_upd_same: "headers r = hs \<Longrightarrow> r\<lparr>headers := hs\<rparr> = r"
  by (cases r) simp

section \<open>The parser on each part of the text\<close>

text \<open>
  Each lemma runs the parser over one part, with any text following it; the parser before a part
  is written \<open>p\<lparr>state := S\<rparr>\<close>, so the lemmas compose by rewriting.
\<close>

lemmas run_simps = consume_def goto_def reject_def

lemma run_method:
  assumes "\<forall>c \<in> set m. \<not> not_token c"
  shows "parse (p\<lparr>state := Method\<rparr>) r (m @ ys) =
    parse (p\<lparr>state := Method\<rparr>) (r\<lparr>method := method r @ m\<rparr>) ys"
  using assms by (induction m arbitrary: r) (simp_all add: run_simps token_facts)

lemma run_method_line:
  assumes "m \<noteq> []" and "\<forall>c \<in> set m. \<not> not_token c"
  shows "parse (p\<lparr>state := Method_start\<rparr>) r (m @ CHR '' '' # ys) =
    parse (p\<lparr>state := Uri\<rparr>) (r\<lparr>method := method r @ m\<rparr>) ys"
  using assms by (cases m) (simp_all add: run_method run_simps)

lemma run_uri:
  assumes "\<forall>c \<in> set u. c \<noteq> CHR '' '' \<and> \<not> is_ctl (schar c)"
  shows "parse (p\<lparr>state := Uri\<rparr>) r (u @ CHR '' '' # ys) =
    parse (p\<lparr>state := Http_version_h\<rparr>) (r\<lparr>uri := uri r @ u\<rparr>) ys"
  using assms by (induction u arbitrary: r) (simp_all add: run_simps)

lemma run_http:
  "parse (p\<lparr>state := Http_version_h\<rparr>) r
      (CHR ''H'' # CHR ''T'' # CHR ''T'' # CHR ''P'' # CHR ''/'' # ys) =
    parse (p\<lparr>state := Http_version_major_start\<rparr>)
      (r\<lparr>http_version_major := 0, http_version_minor := 0\<rparr>) ys"
  by (simp add: run_simps)

definition digits_from :: "nat \<Rightarrow> string \<Rightarrow> nat" where
  "digits_from a s = foldl (\<lambda>a c. a * 10 + (uchar c - 48)) a s"

lemma digits_from_simps [simp]:
  "digits_from a [] = a"
  "digits_from a (c # cs) = digits_from (a * 10 + (uchar c - 48)) cs"
  by (simp_all add: digits_from_def)

lemma digits_from_0: "digits_from 0 s = digits_val s"
  by (simp add: digits_from_def digits_val_def)

lemma digits_val_Cons: "digits_val (c # cs) = digits_from (uchar c - 48) cs"
  by (simp flip: digits_from_0)

lemma digits_from_ge: "a \<le> digits_from a s"
proof (induction s arbitrary: a)
  case Nil
  then show ?case by simp
next
  case (Cons c cs)
  have "a \<le> a * 10 + (uchar c - 48)" by simp
  also have "\<dots> \<le> digits_from a (c # cs)" using Cons by simp
  finally show ?case .
qed

lemma add_digit_from:
  assumes "isdigit c" and "int (digits_from a (c # cs)) \<le> 2147483599"
  shows "add_digit (int a) c = Inr (int (a * 10 + (uchar c - 48)))"
  using assms digits_from_ge [of "a * 10 + (uchar c - 48)" cs]
  by (subst add_digit_ok) auto

lemma run_major:
  assumes "\<forall>c \<in> set ds. isdigit c" and "http_version_major r = int a"
    and "int (digits_from a ds) \<le> 2147483599"
  shows "parse (p\<lparr>state := Http_version_major\<rparr>) r (ds @ CHR ''.'' # ys) =
    parse (p\<lparr>state := Http_version_minor_start\<rparr>)
      (r\<lparr>http_version_major := int (digits_from a ds)\<rparr>) ys"
  using assms
proof (induction ds arbitrary: a r)
  case Nil
  then show ?case by (simp add: run_simps version_upd_same)
next
  case (Cons c cs)
  then show ?case
    by (simp add: run_simps isdigit_facts is_digit_iff add_digit_from del: of_nat_add of_nat_mult)
qed

lemma run_major_start:
  assumes "\<forall>c \<in> set ds. isdigit c" and "ds \<noteq> []" and "http_version_major r = 0"
    and "int (digits_val ds) \<le> 2147483599"
  shows "parse (p\<lparr>state := Http_version_major_start\<rparr>) r (ds @ CHR ''.'' # ys) =
    parse (p\<lparr>state := Http_version_minor_start\<rparr>)
      (r\<lparr>http_version_major := int (digits_val ds)\<rparr>) ys"
proof -
  obtain c cs where ds: "ds = c # cs" using assms(2) by (cases ds) auto
  have "add_digit 0 c = Inr (int (uchar c - 48))"
    using assms(1,4) add_digit_from [of c 0 cs] by (simp add: ds digits_val_Cons)
  then show ?thesis
    using assms by (simp add: ds run_simps is_digit_iff run_major flip: digits_from_0)
qed

lemma run_minor:
  assumes "\<forall>c \<in> set ds. isdigit c" and "http_version_minor r = int a"
    and "int (digits_from a ds) \<le> 2147483599"
  shows "parse (p\<lparr>state := Http_version_minor\<rparr>) r (ds @ CHR 0x0D # ys) =
    parse (p\<lparr>state := Expecting_newline_1\<rparr>)
      (r\<lparr>http_version_minor := int (digits_from a ds)\<rparr>) ys"
  using assms
proof (induction ds arbitrary: a r)
  case Nil
  then show ?case by (simp add: run_simps version_upd_same)
next
  case (Cons c cs)
  then show ?case
    by (simp add: run_simps isdigit_facts is_digit_iff add_digit_from del: of_nat_add of_nat_mult)
qed

lemma run_minor_start:
  assumes "\<forall>c \<in> set ds. isdigit c" and "ds \<noteq> []" and "http_version_minor r = 0"
    and "int (digits_val ds) \<le> 2147483599"
  shows "parse (p\<lparr>state := Http_version_minor_start\<rparr>) r (ds @ crlf @ ys) =
    parse (p\<lparr>state := Header_line_start\<rparr>)
      (r\<lparr>http_version_minor := int (digits_val ds)\<rparr>) ys"
proof -
  obtain c cs where ds: "ds = c # cs" using assms(2) by (cases ds) auto
  have "add_digit 0 c = Inr (int (uchar c - 48))"
    using assms(1,4) add_digit_from [of c 0 cs] by (simp add: ds digits_val_Cons)
  then show ?thesis
    using assms
    by (simp add: ds crlf_def run_simps is_digit_iff run_minor flip: digits_from_0)
qed

lemma run_name:
  assumes "\<forall>c \<in> set n. \<not> not_token c \<and> tolower c = c" and "headers r = hs @ [h]"
  shows "parse (p\<lparr>state := Header_name\<rparr>) r (n @ CHR '':'' # ys) =
    parse (p\<lparr>state := Space_before_header_value\<rparr>)
      (r\<lparr>headers := hs @ [h\<lparr>hname := hname h @ n\<rparr>]\<rparr>) ys"
  using assms
proof (induction n arbitrary: r h)
  case Nil
  then show ?case by (simp add: run_simps headers_upd_same)
next
  case (Cons c n)
  then show ?case by (simp add: run_simps token_facts push_back_name_def)
qed

lemma run_value:
  assumes "\<forall>c \<in> set v. \<not> is_ctl (schar c)" and "headers r = hs @ [h]"
  shows "parse (p\<lparr>state := Header_value\<rparr>) r (v @ crlf @ ys) =
    parse (p\<lparr>state := Header_line_start\<rparr>)
      (r\<lparr>headers := hs @ [h\<lparr>hvalue := hvalue h @ v\<rparr>]\<rparr>) ys"
  using assms
proof (induction v arbitrary: r h)
  case Nil
  then show ?case by (simp add: run_simps crlf_def headers_upd_same)
next
  case (Cons c v)
  then show ?case by (simp add: run_simps text_char_facts push_back_value_def)
qed

lemma run_header:
  assumes "wf_header h"
  shows "parse (p\<lparr>state := Header_line_start\<rparr>) r (render_header h @ ys) =
    parse (p\<lparr>state := Header_line_start\<rparr>) (r\<lparr>headers := headers r @ [h]\<rparr>) ys"
proof -
  obtain c n where n: "hname h = c # n" using assms by (cases "hname h") (auto simp: wf_header_def)
  have h: "h = \<lparr>hname = c # n, hvalue = hvalue h\<rparr>" by (simp flip: n)
  have "\<not> not_token c" "tolower c = c" and ns: "\<forall>c \<in> set n. \<not> not_token c \<and> tolower c = c"
    and vs: "\<forall>c \<in> set (hvalue h). \<not> is_ctl (schar c)"
    using assms by (auto simp: wf_header_def n)
  then show ?thesis
    by (subst (2) h) (simp add: render_header_def n run_simps token_facts push_back_name_def
        run_name [OF ns] run_value [OF vs] header_empty_def)
qed

lemma run_headers:
  assumes "\<forall>h \<in> set hs. wf_header h"
  shows "parse (p\<lparr>state := Header_line_start\<rparr>) r (concat (map render_header hs) @ ys) =
    parse (p\<lparr>state := Header_line_start\<rparr>) (r\<lparr>headers := headers r @ hs\<rparr>) ys"
  using assms by (induction hs arbitrary: r) (simp_all add: run_header headers_upd_same)

lemma run_body:
  assumes "state p = Body" and "xs \<noteq> []" and "uint (body_bytes p) = int (length xs)"
  shows "\<exists>p'. parse p r (xs @ rest) = Inr (Some True, p', r\<lparr>content := content r @ xs\<rparr>, rest)"
  using assms
proof (induction xs arbitrary: p r)
  case Nil
  then show ?case by simp
next
  case (Cons c cs)
  let ?b = "body_bytes p - 1"
  have "body_bytes p \<noteq> 0" using Cons.prems(3) by auto
  then have b: "uint ?b = int (length cs)" using Cons.prems(3) by (simp add: body_step)
  show ?case
  proof (cases "cs = []")
    case True
    with b have "?b = 0" by (simp add: uint_0_iff)
    with True Cons.prems(1) show ?thesis by (simp add: run_simps)
  next
    case False
    with b have "?b \<noteq> 0" by auto
    with Cons.prems(1) have "parse p r ((c # cs) @ rest) =
        parse (p\<lparr>body_bytes := ?b\<rparr>) (r\<lparr>content := content r @ [c]\<rparr>) (cs @ rest)"
      by (simp add: run_simps)
    with Cons.IH [of "p\<lparr>body_bytes := ?b\<rparr>" "r\<lparr>content := content r @ [c]\<rparr>"] False b Cons.prems(1)
    show ?thesis by simp
  qed
qed

lemma run_end:
  assumes "content r = []" and "content_length r \<le> 16 * 1024 * 1024"
    and "int (length xs) = max 0 (content_length r)"
  shows "\<exists>p'. parse (p\<lparr>state := Header_line_start\<rparr>) r (crlf @ xs @ rest) =
    Inr (Some True, p', r\<lparr>content := xs\<rparr>, rest)"
proof (cases "content_length r > 0")
  case False
  with assms show ?thesis by (cases r) (auto simp: crlf_def run_simps Let_def content_length_fold)
next
  case True
  let ?p = "p\<lparr>body_bytes := word_of_int (content_length r), state := Body\<rparr>"
  have "uint (body_bytes ?p) = int (length xs)" using True assms(2,3) by (simp add: length_word)
  moreover have "xs \<noteq> []" using True assms(3) by auto
  ultimately obtain p' where
      "parse ?p r (xs @ rest) = Inr (Some True, p', r\<lparr>content := content r @ xs\<rparr>, rest)"
    using run_body [of ?p xs r rest] by auto
  with True assms(1,2) show ?thesis by (simp add: crlf_def run_simps Let_def content_length_fold)
qed

lemma parse_render_wf:
  assumes "wf_request r" and "fresh_request r0"
  shows "\<exists>p'. parse (parser_reset p) r0 (render r @ rest) =
    Inr (Some True, p', r\<lparr>tstamp := tstamp r0\<rparr>, rest)"
proof -
  have ver: "0 \<le> http_version_major r" "0 \<le> http_version_minor r"
    using assms(1) by (auto simp: wf_request_def version_ok_def)
  let ?r = "r0\<lparr>method := method r, uri := uri r, http_version_major := http_version_major r,
    http_version_minor := http_version_minor r, headers := headers r\<rparr>"
  have "parse (parser_reset p) r0 (render r @ rest) =
      parse (p\<lparr>state := Header_line_start\<rparr>) ?r (crlf @ content r @ rest)"
    using assms dec_string_digits ver
    by (simp add: render_def render_line_def parser_reset_def fresh_request_def wf_request_def
        line_ok_def version_ok_def run_method_line run_uri run_http run_major_start
        run_minor_start run_headers del: parse.simps)
  moreover have "\<exists>p'. parse (p\<lparr>state := Header_line_start\<rparr>) ?r (crlf @ content r @ rest) =
      Inr (Some True, p', ?r\<lparr>content := content r\<rparr>, rest)"
    using assms by (intro run_end)
      (auto simp: wf_request_def fresh_request_def content_length_def get_header_def)
  moreover have "?r\<lparr>content := content r\<rparr> = r\<lparr>tstamp := tstamp r0\<rparr>"
    by (cases r, cases r0) simp
  ultimately show ?thesis by simp
qed
section \<open>Every reachable state\<close>

lemma consume_reject: "consume p r c = Inr (Some False, p', r') \<Longrightarrow> p' = p \<and> r' = r"
  by (cases "state p")
    (auto simp: step_defs Let_def split: if_splits sum.splits)

definition content_bound :: "request \<Rightarrow> bool" where
  "content_bound r \<longleftrightarrow>
     int (length (content r)) \<le> max 0 (content_length r) \<and> length (content r) \<le> 16 * 1024 * 1024"

lemma parser_inv_bound: "parser_inv p r \<Longrightarrow> content_bound r"
proof -
  obtain k where "uint (body_bytes p) = int k" by (metis nonneg_int_cases uint_ge_0)
  then show "parser_inv p r \<Longrightarrow> content_bound r"
    by (auto simp: parser_inv_def body_part_def content_bound_def split: if_splits)
qed

lemma wf_request_bound: "wf_request r \<Longrightarrow> content_bound r"
  by (auto simp: wf_request_def content_bound_def)

lemma parse_bound:
  "parser_inv p r \<Longrightarrow> parse p r xs = Inr (v, p', r', rest) \<Longrightarrow> content_bound r'"
proof (induction p r xs rule: parse.induct)
  case (1 p r)
  then show ?case by (auto dest: parser_inv_bound)
next
  case (2 p r c cs)
  then obtain u p1 r1 where u: "consume p r c = Inr (u, p1, r1)"
    by (cases "consume p r c") auto
  consider "u = None" | "u = Some True" | "u = Some False" by (cases u) auto
  then show ?case
  proof cases
    case 1
    with u 2 show ?thesis by (auto dest: consume_inv)
  next
    case 2
    with u "2.prems" show ?thesis by (auto dest: consume_accept wf_request_bound)
  next
    case 3
    with u "2.prems" show ?thesis by (auto dest!: consume_reject parser_inv_bound)
  qed
qed

section \<open>Properties\<close>

text \<open>
  C12: A request that is printed as HTTP text is read back by the parser exactly as it was,
  from whatever state the parser and the request object were left in before \<open>reset\<close> and
  \<open>clear\<close>, and the parser stops right behind it: what follows stays in the buffer. Only the time
  stamp, which the parser does not touch, is the one the object had.
\<close>

theorem parse_render:
  assumes "wf_request r" and "fresh_request r0"
  shows "\<exists>p'. parse (parser_reset p) r0 (render r @ rest) =
    Inr (Some True, p', r\<lparr>tstamp := tstamp r0\<rparr>, rest)"
  using assms by (rule parse_render_wf)

definition sample_request :: request where
  "sample_request =
     \<lparr>method = ''POST'', uri = ''/GET?ns=a&key=b'', http_version_major = 1, http_version_minor = 1,
      headers = [header_make ''host'' ''db1:80'', header_make ''content-length'' ''5''],
      content = ''hello'', tstamp = 0\<rparr>"

lemma sample_request_wf: "wf_request sample_request"
  by (simp add: wf_request_def sample_request_def line_ok_def version_ok_def wf_header_def
      header_make_def not_token_iff is_ctl_iff content_length_def get_header_def atoi_def
      strtol_def strip_sign_def is_base_digit_10 isdigit_def isspace_def base_val_def digit_val_def
      clamp_long_def int_of_long_def tolower_def isupper_def)

theorem parse_render_witness:
  "\<exists>p'. parse (parser_reset (new_parser 7)) (request_clear sample_request)
      (render sample_request @ ''GET'') = Inr (Some True, p', sample_request, ''GET'')"
  using parse_render [OF sample_request_wf fresh_request_clear, of "new_parser 7" sample_request "''GET''"]
  by (simp add: request_clear_def sample_request_def)

text \<open>
  C13: The requests the parser accepts, over all inputs and all prior states, are exactly the
  well-formed ones: a non-empty method of token characters, a URI without blanks and controls,
  version numbers below the overflow limit, header names of lower-case token characters, header
  values without controls, and a body of exactly the declared \<open>Content-Length\<close>, at most
  16 MiB.
\<close>

theorem accepted_iff_wf:
  "(\<exists>p r0 input p' rest. fresh_request r0 \<and>
      parse (parser_reset p) r0 input = Inr (Some True, p', r, rest)) = wf_request r"
proof
  assume "\<exists>p r0 input p' rest. fresh_request r0 \<and>
      parse (parser_reset p) r0 input = Inr (Some True, p', r, rest)"
  then show "wf_request r"
    by (elim exE conjE) (rule parse_accept [OF parser_inv_reset])
next
  assume wf: "wf_request r"
  have "fresh_request (request_clear r)" by simp
  moreover have "r\<lparr>tstamp := tstamp (request_clear r)\<rparr> = r"
    by (cases r) (simp add: request_clear_def)
  ultimately show "\<exists>p r0 input p' rest. fresh_request r0 \<and>
      parse (parser_reset p) r0 input = Inr (Some True, p', r, rest)"
    using parse_render_wf [OF wf, of "request_clear r" _ "[]"] by metis
qed

text \<open>
  How the network cuts the stream does not matter: feeding the parser the buffers of
  successive reads gives the result, the parser, the request and the unread input that one parse
  of their concatenation gives.
\<close>

theorem feed_parse_concat: "feed parse p r bufs = parse p r (concat bufs)"
  by (rule http.feed_concat) (rule parse_pending_rest)

text \<open>
  C18: Whatever bytes a peer sends, in whatever pieces, the parser never touches the back of an
  empty header vector: the only undefined behaviour it can run into is the overflow of a version
  number.
\<close>

theorem parser_memory_safe:
  assumes "fresh_request r0" and "feed parse (parser_reset p) r0 bufs = Inl e"
  shows "e = Signed_overflow"
  using parse_ub [OF parser_inv_reset [OF assms(1)]] assms(2)
  by (simp add: http.feed_concat parse_pending_rest)

theorem parser_memory_safe_witness:
  "\<exists>e. feed parse (parser_reset (new_parser 0)) (request_clear sample_request)
      [''GET / HTTP/99'', ''99999999''] = Inl e \<and> e = Signed_overflow"
proof -
  have run: "feed parse (parser_reset (new_parser 0)) (request_clear sample_request)
      [''GET / HTTP/99'', ''99999999''] = Inl Signed_overflow"
    by code_simp
  show ?thesis using run parser_memory_safe [OF fresh_request_clear run] by blast
qed

text \<open>
  C19: At any point of any input, the body collected so far is no longer than the declared
  \<open>Content-Length\<close> and never exceeds 16 MiB.
\<close>

theorem body_never_exceeds_limit:
  assumes "fresh_request r0" and "parse (parser_reset p) r0 input = Inr (v, p', r, rest)"
  shows "int (length (content r)) \<le> max 0 (content_length r) \<and>
    length (content r) \<le> 16 * 1024 * 1024"
  using parse_bound [OF parser_inv_reset [OF assms(1)] assms(2)]
  by (simp add: content_bound_def)

theorem body_never_exceeds_limit_witness:
  "int (length (content sample_request)) \<le> max 0 (content_length sample_request) \<and>
    length (content sample_request) \<le> 16 * 1024 * 1024"
proof -
  obtain p' where "parse (parser_reset (new_parser 0)) (request_clear sample_request)
      (render sample_request @ []) = Inr (Some True, p', sample_request, [])"
    using parse_render_wf [OF sample_request_wf fresh_request_clear, of "new_parser 0" sample_request "[]"]
    by (auto simp: request_clear_def sample_request_def)
  then show ?thesis by (rule body_never_exceeds_limit [OF fresh_request_clear])
qed

text \<open>
  The body the parser waits for is the \<open>Content-Length\<close> numeral converted to a 32-bit
  \<open>int\<close>: a declared length of \<open>2 ^ 32 + 5\<close> is read as 5, and one of \<open>2 ^ 32 - 1\<close> as no body at
  all.
\<close>

theorem content_length_wraps:
  assumes "get_header r ''content-length'' = dec_string n" and "n < 2 ^ 63"
  shows "content_length r = (int n + 2147483648) mod 4294967296 - 2147483648"
  using assms strtol_10_digits [of "dec_string n" "[]"] dec_string_digits [of n]
  by (simp add: content_length_def atoi_def clamp_long_def int_of_long_def)

theorem content_length_wraps_witness:
  "content_length (sample_request\<lparr>headers := [header_make ''content-length'' (dec_string 4294967301)]\<rparr>) = 5"
proof -
  let ?r = "sample_request\<lparr>headers := [header_make ''content-length'' (dec_string 4294967301)]\<rparr>"
  have "get_header ?r ''content-length'' = dec_string 4294967301"
    by (simp add: get_header_def header_make_def)
  from content_length_wraps [OF this] show ?thesis by simp
qed

end
