(* ===== verification/Connection.thy ===== *)
theory Connection
  imports Request_Handler Parser_Roundtrip
begin

text \<open>
  \<open>include/connection.hpp\<close> and \<open>src/connection.cpp\<close>: one connection as a state machine. Boost.Asio
  completes one operation at a time (the handlers of a connection run on one strand), so a
  connection waits for a read, for a write, or for nothing; a completion is an event with its error
  flag and, for a read, the bytes received and the time. What a handler passes to \<open>async_write\<close>
  is its output. \<open>keepalive_\<close> is uninitialised in a new connection, so it is optional, and
  reading it then is an error. The request handler is an argument, and the locale states what the
  connection relies on of it.
\<close>

datatype pending = Pending_read | Pending_write | Closed

record connection =
  conn_request :: request
  conn_reply :: reply
  conn_parser :: request_parser
  conn_keepalive :: "bool option"
  pending :: pending

type_synonym 's service = "request \<Rightarrow> reply \<Rightarrow> bool \<Rightarrow> 's \<Rightarrow> (reply \<times> 's) outcome"

datatype event = Read_done bool string int | Write_done bool

text \<open>The constructor, with the values it leaves undetermined as arguments, and \<open>start\<close>.\<close>

definition connection_new :: "int \<Rightarrow> int \<Rightarrow> status_type \<Rightarrow> 32 word \<Rightarrow> connection" where
  "connection_new junk_major junk_minor junk_status junk_bytes =
     \<lparr>conn_request =
        \<lparr>method = [], uri = [], http_version_major = junk_major, http_version_minor = junk_minor,
         headers = [], content = [], tstamp = 0\<rparr>,
      conn_reply = reply_new junk_status,
      conn_parser = new_parser junk_bytes,
      conn_keepalive = None,
      pending = Closed\<rparr>"

definition read_more :: "connection \<Rightarrow> connection" where
  "read_more conn = conn\<lparr>pending := Pending_read\<rparr>"

definition conn_start :: "connection \<Rightarrow> connection" where
  "conn_start conn = read_more conn"

definition conn_reset :: "connection \<Rightarrow> connection" where
  "conn_reset conn =
     conn\<lparr>conn_request := request_clear (conn_request conn),
       conn_reply := reply_clear (conn_reply conn),
       conn_parser := parser_reset (conn_parser conn)\<rparr>"

definition handle_read ::
  "boost \<Rightarrow> 's service \<Rightarrow> bool \<Rightarrow> string \<Rightarrow> int \<Rightarrow> connection \<Rightarrow> 's \<Rightarrow>
     (connection \<times> string list \<times> 's) outcome" where
  "handle_read B H e bytes time conn s =
     (if e then Inr (conn\<lparr>pending := Closed\<rparr>, [], s)
      else
        (case parse (conn_parser conn) (conn_request conn) bytes of
           Inl u \<Rightarrow> Inl u
         | Inr (result, p, r, rest) \<Rightarrow>
             (case result of
                Some True \<Rightarrow>
                  (let ka = want_keepalive B r; r' = r\<lparr>tstamp := time\<rparr>
                   in case H r' (conn_reply conn) ka s of
                        Inl u \<Rightarrow> Inl u
                      | Inr (rep, s') \<Rightarrow>
                          Inr (conn\<lparr>conn_parser := p, conn_request := r', conn_keepalive := Some ka,
                                 conn_reply := rep, pending := Pending_write\<rparr>, [wire rep], s'))
              | Some False \<Rightarrow>
                  (let rep = stock_reply Bad_request
                   in Inr (conn\<lparr>conn_parser := p, conn_request := r, conn_reply := rep,
                             pending := Pending_write\<rparr>, [wire rep], s))
              | None \<Rightarrow> Inr (read_more (conn\<lparr>conn_parser := p, conn_request := r\<rparr>), [], s))))"

definition handle_write :: "bool \<Rightarrow> connection \<Rightarrow> connection outcome" where
  "handle_write e conn =
     (if e then Inr (conn\<lparr>pending := Closed\<rparr>)
      else
        (case conn_keepalive conn of
           None \<Rightarrow> Inl Uninitialised_read
         | Some ka \<Rightarrow>
             if ka then Inr (read_more (conn_reset conn)) else Inr (conn\<lparr>pending := Closed\<rparr>)))"

text \<open>An event occurs only when its operation is pending; any other is ignored.\<close>

fun conn_event ::
  "boost \<Rightarrow> 's service \<Rightarrow> event \<Rightarrow> connection \<Rightarrow> 's \<Rightarrow> (connection \<times> string list \<times> 's) outcome" where
  "conn_event B H (Read_done e bytes time) conn s =
     (if pending conn = Pending_read then handle_read B H e bytes time conn s else Inr (conn, [], s))"
| "conn_event B H (Write_done e) conn s =
     (if pending conn = Pending_write then
        (case handle_write e conn of Inl u \<Rightarrow> Inl u | Inr conn' \<Rightarrow> Inr (conn', [], s))
      else Inr (conn, [], s))"

fun conn_run ::
  "boost \<Rightarrow> 's service \<Rightarrow> event list \<Rightarrow> connection \<Rightarrow> 's \<Rightarrow> (connection \<times> string list \<times> 's) outcome" where
  "conn_run B H [] conn s = Inr (conn, [], s)"
| "conn_run B H (ev # evs) conn s =
     (case conn_event B H ev conn s of
        Inl u \<Rightarrow> Inl u
      | Inr (conn', out, s') \<Rightarrow>
          (case conn_run B H evs conn' s' of
             Inl u \<Rightarrow> Inl u
           | Inr (conn'', outs, s'') \<Rightarrow> Inr (conn'', out @ outs, s'')))"

section \<open>The client of a connection\<close>

fun read_replies :: "nat \<Rightarrow> string \<Rightarrow> ((string \<times> header list \<times> string) list \<times> string) option" where
  "read_replies 0 s = Some ([], s)"
| "read_replies (Suc n) s =
     (case read_reply s of
        None \<Rightarrow> None
      | Some (l, hs, body, rest) \<Rightarrow>
          (case read_replies n rest of
             None \<Rightarrow> None
           | Some (rs, rest') \<Rightarrow> Some ((l, hs, body) # rs, rest')))"

definition framed :: "string \<Rightarrow> bool" where
  "framed out \<longleftrightarrow> (\<forall>rest. \<exists>l hs body. read_reply (out @ rest) = Some (l, hs, body, rest))"

lemma read_replies_framed:
  "\<forall>out \<in> set outs. framed out \<Longrightarrow> \<exists>rs. read_replies (length outs) (concat outs) = Some (rs, []) \<and> length rs = length outs"
proof (induction outs)
  case Nil
  then show ?case by simp
next
  case (Cons out outs)
  then obtain rs where "read_replies (length outs) (concat outs) = Some (rs, [])" "length rs = length outs"
    by auto
  moreover obtain l hs body where "read_reply (out @ concat outs) = Some (l, hs, body, concat outs)"
    using Cons.prems by (metis framed_def list.set_intros(1))
  ultimately show ?case by simp
qed

lemma bad_request_framed: "framed (wire (stock_reply Bad_request))"
  using read_reply_wire [of "stock_reply Bad_request"]
  by (simp add: framed_def stock_reply_def reply_new_def)

section \<open>The handler as an interface\<close>

text \<open>
  What a connection relies on of its handler: provided the libraries keep their contracts
  (\<open>lawful\<close>), every reply of bounded size is framed, and its \<open>Connection\<close> header announces what
  the connection was told to do.
\<close>

locale framed_service =
  fixes H :: "'s service" and lawful :: bool
  assumes reply_framed:
      "lawful \<Longrightarrow> H r rep ka s = Inr (rep', s') \<Longrightarrow> int (length (wire rep')) \<le> 2147483647 \<Longrightarrow> framed (wire rep')"
    and announces:
      "lawful \<Longrightarrow> H r rep ka s = Inr (rep', s') \<Longrightarrow>
         find_header (rep_headers rep') ''Connection'' = (if ka then ''Keep-Alive'' else ''close'')"
begin

lemma event_framed:
  assumes lawful and "conn_event B H ev conn s = Inr (conn', out, s')" and "x \<in> set out"
    and "int (length x) \<le> 2147483647"
  shows "framed x"
  using assms
  by (cases ev)
    (auto simp: handle_read_def Let_def bad_request_framed dest: reply_framed
      split: if_splits sum.splits prod.splits option.splits bool.splits)

lemma run_framed:
  assumes lawful
  shows "conn_run B H evs conn s = Inr (conn', outs, s') \<Longrightarrow>
    \<forall>x \<in> set outs. int (length x) \<le> 2147483647 \<Longrightarrow> \<forall>x \<in> set outs. framed x"
proof (induction evs arbitrary: conn s outs)
  case Nil
  then show ?case by simp
next
  case (Cons ev evs)
  then obtain c1 out s1 outs1 where "conn_event B H ev conn s = Inr (c1, out, s1)"
    and "conn_run B H evs c1 s1 = Inr (conn', outs1, s')" and "outs = out @ outs1"
    by (auto split: sum.splits prod.splits)
  with Cons event_framed [OF assms] show ?case by auto
qed

lemma run_readable:
  assumes lawful and "conn_run B H evs conn s = Inr (conn', outs, s')"
    and "\<forall>x \<in> set outs. int (length x) \<le> 2147483647"
  shows "\<exists>rs. read_replies (length outs) (concat outs) = Some (rs, []) \<and> length rs = length outs"
  using read_replies_framed run_framed [OF assms] by blast

end

lemma length_content_wire: "length (rep_content rep) \<le> length (wire rep)"
  by (simp add: wire_def to_buffers_def)

interpretation svc: framed_service "handle_request L t" "boost_contract (lib_boost L)"
  for L :: "('j, 'w, 'z) libs" and t :: 't
proof
  fix r rep ka rep' and s s' :: "'t as_control \<times> 'w"
  assume b: "boost_contract (lib_boost L)" and h: "handle_request L t r rep ka s = Inr (rep', s')"
  obtain base where bb: "build_reply L base rep ka = Inr rep'"
    using handle_request_built [OF h] by blast
  show "find_header (rep_headers rep') ''Connection'' = (if ka then ''Keep-Alive'' else ''close'')"
    by (simp add: build_reply_Inr(2) [OF bb b] header_make_def)
  assume "int (length (wire rep')) \<le> 2147483647"
  then have "int (length (rep_content rep')) \<le> 2147483647"
    using length_content_wire [of rep'] by linarith
  then show "framed (wire rep')"
    using built_reply_framed [OF bb b] by (auto simp: framed_def)
qed

section \<open>Invariant\<close>

text \<open>
  While a read is pending the parser and the request agree, and the reply the next handler call
  appends its body to is empty.
\<close>

definition conn_inv :: "connection \<Rightarrow> bool" where
  "conn_inv conn \<longleftrightarrow>
     (pending conn = Pending_read \<longrightarrow>
        parser_inv (conn_parser conn) (conn_request conn) \<and> rep_content (conn_reply conn) = [])"

lemma conn_inv_start: "conn_inv (conn_start (connection_new a b st w))"
  by (simp add: conn_inv_def conn_start_def read_more_def connection_new_def new_parser_def reply_new_def
      parser_inv_start fresh_request_def)

lemma handle_read_cases:
  assumes "handle_read B H e bytes time conn s = Inr (conn', out, s')"
  obtains
    (failed) "e" "conn' = conn\<lparr>pending := Closed\<rparr>" "out = []" "s' = s"
  | (partial) p r rest where "parse (conn_parser conn) (conn_request conn) bytes = Inr (None, p, r, rest)"
      "conn' = read_more (conn\<lparr>conn_parser := p, conn_request := r\<rparr>)" "out = []" "s' = s"
  | (accepted) p r rest rep where
      "parse (conn_parser conn) (conn_request conn) bytes = Inr (Some True, p, r, rest)"
      "H (r\<lparr>tstamp := time\<rparr>) (conn_reply conn) (want_keepalive B r) s = Inr (rep, s')"
      "conn' = conn\<lparr>conn_parser := p, conn_request := r\<lparr>tstamp := time\<rparr>,
         conn_keepalive := Some (want_keepalive B r), conn_reply := rep, pending := Pending_write\<rparr>"
      "out = [wire rep]"
  | (rejected) p r rest where
      "parse (conn_parser conn) (conn_request conn) bytes = Inr (Some False, p, r, rest)"
      "conn' = conn\<lparr>conn_parser := p, conn_request := r, conn_reply := stock_reply Bad_request,
         pending := Pending_write\<rparr>"
      "out = [wire (stock_reply Bad_request)]" "s' = s"
  using assms
  by (auto simp: handle_read_def Let_def
      split: if_splits sum.splits prod.splits option.splits bool.splits)

lemma conn_inv_event:
  assumes "conn_inv conn" and "conn_event B H ev conn s = Inr (conn', out, s')"
  shows "conn_inv conn'"
proof (cases ev)
  case (Read_done e bytes time)
  show ?thesis
  proof (cases "pending conn = Pending_read")
    case True
    with assms Read_done have h: "handle_read B H e bytes time conn s = Inr (conn', out, s')" by simp
    from h show ?thesis
    proof (cases rule: handle_read_cases)
      case (partial p r rest)
      with assms(1) True show ?thesis
        using parse_inv [of "conn_parser conn" "conn_request conn" bytes]
        by (auto simp: conn_inv_def read_more_def)
    qed (simp_all add: conn_inv_def)
  next
    case False
    with assms Read_done show ?thesis by simp
  qed
next
  case (Write_done e)
  show ?thesis
  proof (cases "pending conn = Pending_write")
    case True
    then have w: "handle_write e conn = Inr conn'"
      using assms(2) Write_done by (auto split: sum.splits)
    have "conn_inv (read_more (conn_reset conn))"
      by (simp add: conn_inv_def read_more_def conn_reset_def reply_clear_def parser_inv_reset)
    with w show ?thesis
      by (auto simp: handle_write_def conn_inv_def split: if_splits option.splits)
  next
    case False
    with assms Write_done show ?thesis by simp
  qed
qed

lemma conn_inv_run: "conn_inv conn \<Longrightarrow> conn_run B H evs conn s = Inr (conn', outs, s') \<Longrightarrow> conn_inv conn'"
proof (induction evs arbitrary: conn s outs)
  case Nil
  then show ?case by simp
next
  case (Cons ev evs)
  then obtain c1 out s1 outs1 where ev: "conn_event B H ev conn s = Inr (c1, out, s1)"
    and r: "conn_run B H evs c1 s1 = Inr (conn', outs1, s')"
    by (auto split: sum.splits prod.splits)
  show ?case
    by (rule Cons.IH [OF conn_inv_event [OF Cons.prems(1) ev] r])
qed

text \<open>
  How the bytes of a request are cut into reads makes no difference: as long as the request is not
  complete before the last of them, the connection and its output are those of a single read of all
  the bytes.
\<close>

lemma reads_concat:
  assumes "pending conn = Pending_read"
    and "parse (conn_parser conn) (conn_request conn) (concat bs) = Inr (None, p, r, rest)"
  shows "conn_run B H (map (\<lambda>b. Read_done False b time) (bs @ [b])) conn s =
    conn_run B H [Read_done False (concat (bs @ [b])) time] conn s"
  using assms
proof (induction bs arbitrary: conn)
  case Nil
  then show ?case by simp
next
  case (Cons b1 bs)
  let ?p = "conn_parser conn" and ?r = "conn_request conn"
  obtain p1 r1 where p1: "parse ?p ?r b1 = Inr (None, p1, r1, [])"
    and p2: "parse p1 r1 (concat bs) = Inr (None, p, r, rest)"
    using Cons.prems(2) parse_append [of ?p ?r b1 "concat bs"] parse_pending_rest
    by (fastforce split: sum.splits option.splits)
  let ?c1 = "read_more (conn\<lparr>conn_parser := p1, conn_request := r1\<rparr>)"
  have e: "conn_event B H (Read_done False b1 time) conn s = Inr (?c1, [], s)"
    using Cons.prems(1) p1 by (simp add: handle_read_def)
  have ih: "conn_run B H (map (\<lambda>b. Read_done False b time) (bs @ [b])) ?c1 s =
      conn_run B H [Read_done False (concat (bs @ [b])) time] ?c1 s"
    by (rule Cons.IH) (simp_all add: read_more_def p2)
  have "parse ?p ?r (concat ((b1 # bs) @ [b])) = parse p1 r1 (concat (bs @ [b]))"
    using http.prs_pending_rest [OF p1, of "concat bs @ b"] by simp
  then have "handle_read B H False (concat (bs @ [b])) time ?c1 s =
      handle_read B H False (concat ((b1 # bs) @ [b])) time conn s"
    using Cons.prems(1)
    by (simp add: handle_read_def read_more_def Let_def split: sum.split prod.split option.split bool.split)
  then show ?case
    using e ih Cons.prems(1) by (simp add: read_more_def split: sum.split)
qed

section \<open>Runs for the witnesses\<close>

text \<open>For the witnesses: a service that answers every request with an empty 200 reply, and the bytes
  of one request.\<close>

definition empty_service :: "unit service" where
  "empty_service r rep ka s = Inr (rep\<lparr>status := Ok, rep_headers := []\<rparr>, s)"

lemma status_request_wf: "wf_request (uri_request ''/status?'')"
  by (simp add: wf_request_def uri_request_def line_ok_def version_ok_def content_length_def char_class get_header_def
      isupper_def islower_def isdigit_def)
lemma status_request_parses:
  assumes "fresh_request r0"
  shows "\<exists>p'. parse (new_parser w) r0 (render (uri_request ''/status?'') @ rest) =
    Inr (Some True, p', (uri_request ''/status?'')\<lparr>tstamp := tstamp r0\<rparr>, rest)"
proof -
  have "parser_reset (new_parser w) = new_parser w" by (simp add: parser_reset_def new_parser_def)
  then show ?thesis using parse_render_wf [OF status_request_wf assms, of "new_parser w" rest] by simp
qed

section \<open>Properties\<close>

text \<open>
  Whatever completions occur on a connection, everything it has written is a sequence of
  complete replies: a client that knows how many were sent reads them all, one after the other, and
  nothing is left over.
\<close>

theorem connection_stream:
  assumes "conn_run B (handle_request L t) evs conn s = Inr (conn', outs, s')"
    and "boost_contract (lib_boost L)" and "\<forall>x \<in> set outs. int (length x) \<le> 2147483647"
  shows "\<exists>rs. read_replies (length outs) (concat outs) = Some (rs, []) \<and> length rs = length outs"
  by (rule svc.run_readable [OF assms(2,1,3)])

lemma connection_stream_witness:
  "\<exists>conn' outs s' rs.
     conn_run boost_ref (handle_request sample_libs (1 :: nat))
       [Read_done False (render (uri_request ''/status?'')) 7, Write_done False]
       (conn_start (connection_new 0 0 Ok 0)) (sample_control, None) = Inr (conn', outs, s') \<and>
     length outs = 1 \<and> read_replies 1 (concat outs) = Some (rs, [])"
proof -
  let ?conn = "conn_start (connection_new 0 0 Ok 0)"
  let ?r = "(uri_request ''/status?'')\<lparr>tstamp := 7\<rparr>"
  obtain p' where "parse (conn_parser ?conn) (conn_request ?conn) (render (uri_request ''/status?'')) =
      Inr (Some True, p', (uri_request ''/status?'')\<lparr>tstamp := 0\<rparr>, [])"
    using status_request_parses [of "conn_request ?conn" 0 "[]"]
    by (auto simp: conn_start_def connection_new_def read_more_def fresh_request_def)
  moreover have ka: "want_keepalive boost_ref ((uri_request ''/status?'')\<lparr>tstamp := 0\<rparr>) = True"
    by (simp add: want_keepalive_def is_http11_def uri_request_def get_header_def boost_ref_def)
  moreover have "handle_request sample_libs (1 :: nat) ?r (reply_new Ok) True (sample_control, None) =
      handle_request sample_libs (1 :: nat) (uri_request ''/status?'') (reply_new Ok) True (sample_control, None)"
    by (simp add: handle_request_def)
  ultimately obtain conn' x s' where run:
    "conn_run boost_ref (handle_request sample_libs (1 :: nat))
       [Read_done False (render (uri_request ''/status?'')) 7, Write_done False] ?conn (sample_control, None) =
       Inr (conn', [x], s')" and x: "x = wire (fst (projr (handle_request sample_libs (1 :: nat)
         (uri_request ''/status?'') (reply_new Ok) True (sample_control, None))))"
    using sample_status [of 1 sample_control None]
    by (simp add: Let_def handle_read_def handle_write_def conn_start_def connection_new_def read_more_def)
  have "int (length x) \<le> 2147483647"
    unfolding x sample_status by (simp add: wire_def to_buffers_def header_make_def crlf_def status_text_def dec_eval
        name_value_separator_def)
  then show ?thesis
    using connection_stream [OF run] run boost_ref_contract by (fastforce simp: sample_libs_def)
qed

text \<open>
  C10: in a connection started anew, after any completions, a request is handed to the handler only
  when it is a complete well-formed request, and the reply handed along has an empty body, so no
  byte of an earlier reply is sent again.
\<close>

theorem handler_sees_wf_request:
  assumes "conn_run B H evs (conn_start (connection_new a b st w)) s = Inr (conn, outs, s')"
    and "pending conn = Pending_read"
    and "parse (conn_parser conn) (conn_request conn) bytes = Inr (Some True, p, r, rest)"
  shows "wf_request r \<and> rep_content (conn_reply conn) = []"
proof -
  have "conn_inv conn" by (rule conn_inv_run [OF conn_inv_start assms(1)])
  then show ?thesis
    using assms(2,3) http.prs_complete by (auto simp: conn_inv_def)
qed

lemma handler_sees_wf_request_witness:
  "\<exists>conn outs s' p' r.
     conn_run boost_ref empty_service [] (conn_start (connection_new 0 0 Ok 0)) () = Inr (conn, outs, s') \<and>
     parse (conn_parser conn) (conn_request conn) (render (uri_request ''/status?'')) = Inr (Some True, p', r, []) \<and>
     wf_request r \<and> rep_content (conn_reply conn) = []"
proof -
  let ?conn = "conn_start (connection_new 0 0 Ok 0)"
  obtain p' r where p: "parse (conn_parser ?conn) (conn_request ?conn) (render (uri_request ''/status?'')) =
      Inr (Some True, p', r, [])"
    using status_request_parses [of "conn_request ?conn" 0 "[]"]
    by (auto simp: conn_start_def connection_new_def read_more_def fresh_request_def)
  have "conn_run boost_ref empty_service [] ?conn () = Inr (?conn, [], ())" by simp
  moreover have "pending ?conn = Pending_read" by (simp add: conn_start_def read_more_def)
  ultimately show ?thesis
    using handler_sees_wf_request [of boost_ref empty_service "[]" 0 0 Ok 0 "()" ?conn "[]" "()", OF _ _ p] p by auto
qed

definition sample_conn :: connection where
  "sample_conn = conn_start (connection_new 0 0 Ok 0)"

lemma sample_conn_simps:
  "pending sample_conn = Pending_read" "conn_parser sample_conn = new_parser 0"
  "fresh_request (conn_request sample_conn)" "conn_keepalive sample_conn = None"
  by (simp_all add: sample_conn_def conn_start_def connection_new_def read_more_def fresh_request_def)

lemma parse_newline: "parse (new_parser w) r (CHR 0x0A # rest) = Inr (Some False, new_parser w, r, rest)"
  by (simp add: consume_def new_parser_def not_token_iff reject_def)

text \<open>
  C37: bytes that arrive in the same read behind a complete request are lost: the connection ends up
  in the same state and sends the same reply as without them.
\<close>

theorem pipelined_bytes_lost:
  assumes "wf_request r" and "fresh_request (conn_request conn)"
    and "conn_parser conn = parser_reset p"
  shows "handle_read B H False (render r @ rest) time conn s =
    handle_read B H False (render r) time conn s"
  using parse_render_wf [OF assms(1,2), of p rest] parse_render_wf [OF assms(1,2), of p "[]"]
    parse_append [of "parser_reset p" "conn_request conn" "render r" rest]
  by (auto simp: handle_read_def assms(3))

lemma pipelined_bytes_lost_witness:
  "handle_read boost_ref empty_service False (render (uri_request ''/status?'') @ render (uri_request ''/status?'')) 0 sample_conn () =
   handle_read boost_ref empty_service False (render (uri_request ''/status?'')) 0 sample_conn ()"
  by (rule pipelined_bytes_lost [OF status_request_wf sample_conn_simps(3), of "new_parser 0"])
    (simp add: sample_conn_simps new_parser_def parser_reset_def)

text \<open>
  C35: when the first request of a connection is malformed, the completion of the write of the error
  reply reads \<open>keepalive_\<close>, which has never been set.
\<close>

theorem first_bad_request_uninitialised:
  assumes "parse (conn_parser conn) (conn_request conn) bytes = Inr (Some False, p, r, rest)"
    and "conn = conn_start (connection_new a b st w)"
  shows "conn_run B H [Read_done False bytes time, Write_done False] conn s = Inl Uninitialised_read"
  using assms
  by (simp add: Let_def handle_read_def handle_write_def conn_start_def connection_new_def read_more_def)

lemma first_bad_request_uninitialised_witness:
  "conn_run boost_ref empty_service [Read_done False [CHR 0x0A] 0, Write_done False] sample_conn () = Inl Uninitialised_read"
  by (rule first_bad_request_uninitialised [OF _ sample_conn_def])
    (simp add: sample_conn_simps parse_newline del: parse.simps)

text \<open>
  C36: a malformed request on a connection that was kept alive before does not end it: the error
  reply is sent and the connection goes on reading with a fresh parser.
\<close>

theorem bad_request_keeps_connection:
  assumes "pending conn = Pending_read" and "conn_keepalive conn = Some True"
    and "parse (conn_parser conn) (conn_request conn) bytes = Inr (Some False, p, r, rest)"
  shows "\<exists>conn'. conn_run B H [Read_done False bytes time, Write_done False] conn s =
      Inr (conn', [wire (stock_reply Bad_request)], s) \<and>
    pending conn' = Pending_read \<and> fresh_request (conn_request conn') \<and>
    state (conn_parser conn') = Method_start"
  using assms
  by (simp add: Let_def handle_read_def handle_write_def read_more_def conn_reset_def parser_reset_def)

lemma bad_request_keeps_connection_witness:
  "\<exists>conn'. conn_run boost_ref empty_service [Read_done False [CHR 0x0A] 0, Write_done False]
       (sample_conn\<lparr>conn_keepalive := Some True\<rparr>) () = Inr (conn', [wire (stock_reply Bad_request)], ()) \<and>
     pending conn' = Pending_read"
  using bad_request_keeps_connection [of "sample_conn\<lparr>conn_keepalive := Some True\<rparr>" "[CHR 0x0A]"
      "new_parser 0" "conn_request sample_conn" "[]" boost_ref empty_service 0 "()"]
  by (fastforce simp: sample_conn_simps parse_newline simp del: parse.simps)

end
