(* ===== verification/Session.thy ===== *)
theory Session
  imports Connection
begin

text \<open>
  What a connection promises its client, without parser states, buffers and callbacks: each request
  of the session is answered in turn by the handler, and the first one that does not ask for the
  connection to be kept ends the session. The lemmas show that the state machine of
  \<open>connection.cpp\<close>, driven by the completions of a session, does exactly this, however the bytes of
  the requests are cut into reads.
\<close>

text \<open>A request, the reads its bytes arrive in, and the time of the last one.\<close>

type_synonym exchange = "request \<times> string list \<times> int"

definition exchange_ok :: "exchange \<Rightarrow> bool" where
  "exchange_ok x = (case x of (r, bs, time) \<Rightarrow>
     wf_request r \<and> concat bs = render r \<and> bs \<noteq> [] \<and> last bs \<noteq> [])"

fun session_events :: "exchange list \<Rightarrow> event list" where
  "session_events [] = []"
| "session_events ((r, bs, time) # xs) =
     map (\<lambda>b. Read_done False b time) bs @ Write_done False # session_events xs"

fun serve ::
  "('j, 'w, 'z) libs \<Rightarrow> 't \<Rightarrow> exchange list \<Rightarrow> 't as_control \<times> 'w \<Rightarrow>
     (string list \<times> 't as_control \<times> 'w) outcome" where
  "serve L t [] s = Inr ([], s)"
| "serve L t ((r, bs, time) # xs) s =
     (let ka = want_keepalive (lib_boost L) r
      in case handle_request L t (r\<lparr>tstamp := time\<rparr>) (reply_new Ok) ka s of
           Inl e \<Rightarrow> Inl e
         | Inr (rep, s') \<Rightarrow>
             if ka then
               (case serve L t xs s' of
                  Inl e \<Rightarrow> Inl e
                | Inr (outs, s'') \<Rightarrow> Inr (wire rep # outs, s''))
             else Inr ([wire rep], s'))"

text \<open>A connection that has nothing of a request yet, and what a run shows of itself outside.\<close>

definition ready :: "connection \<Rightarrow> bool" where
  "ready conn \<longleftrightarrow> pending conn = Pending_read \<and> fresh_request (conn_request conn) \<and>
     conn_parser conn = parser_reset (conn_parser conn) \<and> rep_content (conn_reply conn) = []"

definition observed :: "(connection \<times> string list \<times> 's) outcome \<Rightarrow> (string list \<times> 's) outcome" where
  "observed res = (case res of Inl e \<Rightarrow> Inl e | Inr (conn, outs, s) \<Rightarrow> Inr (outs, s))"

lemma observed_simps [simp]:
  "observed (Inl e) = Inl e" "observed (Inr (conn, outs, s)) = Inr (outs, s)"
  by (simp_all add: observed_def)

lemma ready_start: "ready (conn_start (connection_new a b st w))"
  by (simp add: ready_def conn_start_def connection_new_def read_more_def fresh_request_def
      new_parser_def parser_reset_def reply_new_def)

lemma ready_reset: "ready (read_more (conn_reset conn))"
  by (simp add: ready_def read_more_def conn_reset_def parser_reset_def reply_clear_def)

text \<open>The handler overwrites the status and the headers of the reply it is given.\<close>

lemma handle_request_reply_irrelevant:
  assumes "rep_content rep = []"
  shows "handle_request L t r rep ka s = handle_request L t r (reply_new Ok) ka s"
proof -
  have eq: "build_reply L base rep ka = build_reply L base (reply_new Ok) ka" for base
    using assms by (simp add: build_reply_def reply_new_def split: option.split)
  show ?thesis unfolding handle_request_def eq by (rule refl)
qed

lemma want_keepalive_tstamp [simp]: "want_keepalive B (r\<lparr>tstamp := x\<rparr>) = want_keepalive B r"
  by (simp add: want_keepalive_def is_http11_def get_header_def)

lemma conn_run_append:
  "conn_run B H (evs @ evs') conn s =
     (case conn_run B H evs conn s of
        Inl u \<Rightarrow> Inl u
      | Inr (conn', outs, s') \<Rightarrow>
          (case conn_run B H evs' conn' s' of
             Inl u \<Rightarrow> Inl u
           | Inr (conn'', outs', s'') \<Rightarrow> Inr (conn'', outs @ outs', s'')))"
  by (induction evs arbitrary: conn s) (auto split: sum.split)

text \<open>A proper prefix of the bytes of a request leaves the parser waiting.\<close>

lemma parse_prefix_pending:
  assumes "parse p r (xs @ ys) = Inr (Some v, p', r', [])" and "ys \<noteq> []"
  shows "\<exists>p1 r1. parse p r xs = Inr (None, p1, r1, [])"
proof (cases "parse p r xs")
  case (Inl e)
  then show ?thesis using assms by (simp add: parse_append)
next
  case (Inr x)
  then obtain v1 p1 r1 rest where x: "parse p r xs = Inr (v1, p1, r1, rest)" by (cases x) auto
  then have "v1 = None" using assms by (cases v1) (auto simp: parse_append)
  then show ?thesis using x parse_pending_rest by blast
qed

lemma closed_ignores:
  "pending conn = Closed \<Longrightarrow> conn_run B H evs conn s = Inr (conn, [], s)"
proof (induction evs arbitrary: conn)
  case Nil
  show ?case by simp
next
  case (Cons ev evs)
  then show ?case by (cases ev) simp_all
qed

text \<open>A service that ignores what the reply it is given holds, as long as its body is empty.\<close>

definition reply_irrelevant :: "'s service \<Rightarrow> bool" where
  "reply_irrelevant H \<longleftrightarrow> (\<forall>r rep ka s. rep_content rep = [] \<longrightarrow> H r rep ka s = H r (reply_new Ok) ka s)"

text \<open>One exchange: the reads of a request and the completion of the write of its reply.\<close>

lemma exchange_run_service:
  assumes "ready conn" and "exchange_ok (r, bs, time)" and "reply_irrelevant H"
  shows "\<exists>conn'. conn_run B H (session_events [(r, bs, time)]) conn s =
      (case H (r\<lparr>tstamp := time\<rparr>) (reply_new Ok) (want_keepalive B r) s of
         Inl e \<Rightarrow> Inl e
       | Inr (rep, s') \<Rightarrow> Inr (conn' rep, [wire rep], s')) \<and>
    (\<forall>rep. if want_keepalive B r then ready (conn' rep) else pending (conn' rep) = Closed)"
proof -
  let ?ka = "want_keepalive B r"
  have bs: "bs = butlast bs @ [last bs]" "concat (butlast bs) @ last bs = render r" "last bs \<noteq> []"
    and wf: "wf_request r"
    using assms(2) append_butlast_last_id [of bs] concat_append [of "butlast bs" "[last bs]"]
    by (auto simp: exchange_ok_def)
  obtain q where q: "parse (conn_parser conn) (conn_request conn) (render r) =
      Inr (Some True, q, r\<lparr>tstamp := tstamp (conn_request conn)\<rparr>, [])"
    using parse_render_wf [OF wf, of "conn_request conn" "conn_parser conn" "[]"] assms(1)
    by (auto simp: ready_def)
  then obtain p1 r1 where
    "parse (conn_parser conn) (conn_request conn) (concat (butlast bs)) = Inr (None, p1, r1, [])"
    using parse_prefix_pending [of _ _ "concat (butlast bs)" "last bs"] bs(2,3) by metis
  then have one: "conn_run B H (map (\<lambda>b. Read_done False b time) bs) conn s =
      conn_run B H [Read_done False (render r) time] conn s"
    using reads_concat [of conn "butlast bs" p1 r1 "[]" B H time "last bs" s] assms(1) bs
    by (metis ready_def concat_append concat.simps append_Nil2)
  let ?c = "\<lambda>rep. conn\<lparr>conn_parser := q, conn_request := r\<lparr>tstamp := time\<rparr>,
    conn_keepalive := Some ?ka, conn_reply := rep, pending := Pending_write\<rparr>"
  let ?c' = "\<lambda>rep. if ?ka then read_more (conn_reset (?c rep)) else (?c rep)\<lparr>pending := Closed\<rparr>"
  have "conn_run B H [Read_done False (render r) time] conn s =
      (case H (r\<lparr>tstamp := time\<rparr>) (reply_new Ok) ?ka s of
         Inl e \<Rightarrow> Inl e | Inr (rep, s') \<Rightarrow> Inr (?c rep, [wire rep], s'))"
    using assms(1) q assms(3)
    by (simp add: ready_def handle_read_def reply_irrelevant_def Let_def split: sum.split)
  then have "conn_run B H (session_events [(r, bs, time)]) conn s =
      (case H (r\<lparr>tstamp := time\<rparr>) (reply_new Ok) ?ka s of
         Inl e \<Rightarrow> Inl e | Inr (rep, s') \<Rightarrow> Inr (?c' rep, [wire rep], s'))"
    by (simp only: session_events.simps conn_run_append one)
      (simp add: handle_write_def split: sum.split)
  moreover have "\<forall>rep. if ?ka then ready (?c' rep) else pending (?c' rep) = Closed"
    by (simp add: ready_reset)
  ultimately show ?thesis by (intro exI [of _ ?c'] conjI)
qed

lemma exchange_run:
  assumes "ready conn" and "exchange_ok (r, bs, time)"
  shows "\<exists>conn'. conn_run (lib_boost L) (handle_request L t) (session_events [(r, bs, time)]) conn s =
      (case handle_request L t (r\<lparr>tstamp := time\<rparr>) (reply_new Ok) (want_keepalive (lib_boost L) r) s of
         Inl e \<Rightarrow> Inl e
       | Inr (rep, s') \<Rightarrow> Inr (conn' rep, [wire rep], s')) \<and>
    (\<forall>rep. if want_keepalive (lib_boost L) r then ready (conn' rep) else pending (conn' rep) = Closed)"
  by (rule exchange_run_service [OF assms]) (simp add: reply_irrelevant_def handle_request_reply_irrelevant)

lemma session_events_Cons: "session_events (x # xs) = session_events [x] @ session_events xs"
  by (cases x) simp

lemma session_run:
  assumes "ready conn" and "list_all exchange_ok xs"
  shows "observed (conn_run (lib_boost L) (handle_request L t) (session_events xs) conn s) = serve L t xs s"
  using assms
proof (induction xs arbitrary: conn s)
  case Nil
  show ?case by simp
next
  case (Cons x xs)
  obtain r bs time where x: "x = (r, bs, time)" by (cases x)
  let ?ka = "want_keepalive (lib_boost L) r"
  have ok: "exchange_ok (r, bs, time)" using Cons.prems(2) by (simp add: x)
  obtain conn' where e: "conn_run (lib_boost L) (handle_request L t) (session_events [(r, bs, time)]) conn s =
      (case handle_request L t (r\<lparr>tstamp := time\<rparr>) (reply_new Ok) ?ka s of
         Inl e \<Rightarrow> Inl e | Inr (rep, s') \<Rightarrow> Inr (conn' rep, [wire rep], s'))"
    and c: "\<forall>rep. if ?ka then ready (conn' rep) else pending (conn' rep) = Closed"
    using exchange_run [OF Cons.prems(1) ok, of L t s] by (elim exE conjE) (rule that)
  show ?case
  proof (cases "handle_request L t (r\<lparr>tstamp := time\<rparr>) (reply_new Ok) ?ka s")
    case (Inl e')
    then show ?thesis by (simp only: x session_events_Cons [of "(r, bs, time)" xs] conn_run_append e) simp
  next
    case (Inr res)
    then obtain rep s' where h: "handle_request L t (r\<lparr>tstamp := time\<rparr>) (reply_new Ok) ?ka s = Inr (rep, s')"
      by (cases res) auto
    let ?rest = "conn_run (lib_boost L) (handle_request L t) (session_events xs) (conn' rep) s'"
    have run: "conn_run (lib_boost L) (handle_request L t) (session_events ((r, bs, time) # xs)) conn s =
        (case ?rest of Inl u \<Rightarrow> Inl u | Inr (c'', outs, s'') \<Rightarrow> Inr (c'', wire rep # outs, s''))"
      by (simp only: session_events_Cons [of "(r, bs, time)" xs] conn_run_append e h) (simp split: sum.split)
    show ?thesis
    proof (cases ?ka)
      case True
      then have rest: "observed ?rest = serve L t xs s'"
        using spec [OF c, of rep] Cons.IH Cons.prems by simp
      have "serve L t (x # xs) s =
          (case serve L t xs s' of Inl e \<Rightarrow> Inl e | Inr (outs, s'') \<Rightarrow> Inr (wire rep # outs, s''))"
        using h True by (simp add: x)
      then show ?thesis
        unfolding x run rest [symmetric] by (simp add: observed_def split: sum.split)
    next
      case False
      then show ?thesis
        using spec [OF c, of rep] h run by (simp add: x closed_ignores del: session_events.simps)
    qed
  qed
qed

end
