(* ===== verification/Main_Config.thy ===== *)
theory Main_Config
  imports As_Control
begin

text \<open>
  \<open>src/main.cpp\<close>: how the program finds and reads its configuration. The environment is an argument:
  the target of \<open>/proc/<pid>/exe\<close> and the files, where \<open>files\<close> is \<open>None\<close> at a path that does not exist
  and \<open>Some None\<close> at a file that cannot be opened. The result is the exit status of an early return
  or the settings the server is started with; a \<open>max_thread\<close> or \<open>port\<close> is the \<open>int\<close> it is stored in.
  The log and the exception of a server that cannot listen are added in \<open>Main_Boot\<close>.
\<close>

definition CONFIG_FILE :: string where
  "CONFIG_FILE = ''conf/config.ini''"

text \<open>\<open>readlink(linkname, buf, 512)\<close> and \<open>buf[ret] = 0\<close>, \<open>None\<close> for a failure with \<open>ret = -1\<close>.\<close>

definition read_exe :: "string option \<Rightarrow> string outcome" where
  "read_exe target =
     (case target of
        None \<Rightarrow> Inl Out_of_bounds_write
      | Some path \<Rightarrow>
          (let buf = take 512 path
           in if length buf < 512 then Inr (c_str buf) else Inl Out_of_bounds_write))"

text \<open>\<open>erase(find_last_of("\\/"), ...)\<close>: the path without its last component; \<open>None\<close> for the exception
  \<open>erase\<close> throws at \<open>npos\<close>.\<close>

definition is_slash :: "char \<Rightarrow> bool" where
  "is_slash c \<longleftrightarrow> c = CHR ''/'' \<or> c = CHR 0x5C"

definition root_path :: "string \<Rightarrow> string option" where
  "root_path path =
     (if \<exists>c \<in> set path. is_slash c
      then Some (rev (tl (dropWhile (\<lambda>c. \<not> is_slash c) (rev path))) @ ''/../'')
      else None)"

definition clean_servers :: "boost \<Rightarrow> string \<Rightarrow> string" where
  "clean_servers B s0 =
     (let s1 = replace_all B s0 [CHR 0x22] [];
          s2 = replace_all B s1 [CHR 0x09] [];
          s3 = replace_all B s2 [CHR 0x0A] [];
          s4 = replace_all B s3 [CHR 0x0D] []
      in replace_all B s4 '' '' [])"

record 't settings =
  set_host :: string
  set_port :: int
  set_max_thread :: int
  set_control :: "'t as_control"

definition read_settings :: "boost \<Rightarrow> ini_reader \<Rightarrow> 't settings" where
  "read_settings B reader =
     (let health = Get reader ''server'' ''status'' [];
          host = Get reader ''server'' ''host'' ''0.0.0.0'';
          port0 = int_of_long (GetInteger reader ''server'' ''port'' 8000);
          max_thread = int_of_long (GetInteger reader ''server'' ''max_thread'' 8);
          as_servers = Get reader ''aerospike'' ''servers'' ''127.0.0.1'';
          as_port = int_of_long (GetInteger reader ''aerospike'' ''port'' 3000);
          as_timeout = int_of_long (GetInteger reader ''aerospike'' ''timeout'' 500)
      in \<lparr>set_host = host, set_port = port0, set_max_thread = max_thread,
          set_control =
            AS_CONTROL_new B (clean_servers B as_servers) as_port as_timeout max_thread health reader\<rparr>)"

datatype 't started = Exit int | Start "'t settings"

definition main_start ::
  "boost \<Rightarrow> string option \<Rightarrow> (string \<rightharpoonup> string option) \<Rightarrow> 't started option outcome" where
  "main_start B target files =
     (case read_exe target of
        Inl e \<Rightarrow> Inl e
      | Inr path \<Rightarrow>
          (case root_path path of
             None \<Rightarrow> Inr None
           | Some dir \<Rightarrow>
               (let config_file = dir @ CONFIG_FILE
                in case files config_file of
                     None \<Rightarrow> Inr (Some (Exit 1))
                   | Some contents \<Rightarrow>
                       (let reader = INIReader contents
                        in if ParseError reader < 0 then Inr (Some (Exit 1))
                           else Inr (Some (Start (read_settings B reader)))))))"

section \<open>Lemmas\<close>

lemma clean_servers_filter:
  assumes "boost_contract B"
  shows "clean_servers B s =
    filter (\<lambda>c. c \<notin> {CHR 0x22, CHR 0x09, CHR 0x0A, CHR 0x0D, CHR '' ''}) s"
  by (simp add: clean_servers_def boost_contractD(3) [OF assms] conj_commute conj_left_commute)

lemma root_path_dir:
  "root_path (d @ ''/'' @ f) = Some (d @ ''/../'')" if "\<forall>c \<in> set f. \<not> is_slash c"
proof -
  have "dropWhile (\<lambda>c. \<not> is_slash c) (rev f @ CHR ''/'' # rev d) = CHR ''/'' # rev d"
    using that by (subst dropWhile_append2) (auto simp: is_slash_def)
  then show ?thesis by (auto simp: root_path_def is_slash_def)
qed

lemma read_settings_servers:
  "as_server_list (set_control (read_settings B r)) =
     split_any_of B '','' (clean_servers B (Get r ''aerospike'' ''servers'' ''127.0.0.1''))"
  by (simp add: read_settings_def Let_def AS_CONTROL_new_def)

section \<open>Properties\<close>


definition sample_file :: string where
  "sample_file =
     render_ini
       [(''server'', [(''port'', ''3006'')]), (''aerospike'', [(''servers'', ''db1, db2'')])]"


text \<open>The characters of a host name or address.\<close>

definition host_char :: "char \<Rightarrow> bool" where
  "host_char c \<longleftrightarrow> isalnum c \<or> c = CHR ''.'' \<or> c = CHR ''-'' \<or> c = CHR '':''"

lemma host_char_facts:
  "host_char c \<Longrightarrow> \<not> isspace c \<and> c \<noteq> CHR '','' \<and> c \<noteq> CHR '';'' \<and> c \<noteq> CHR 0x22 \<and> c \<noteq> CHR 0x00 \<and> c \<noteq> newline \<and>
     c \<noteq> CHR 0x09 \<and> c \<noteq> CHR 0x0A \<and> c \<noteq> CHR 0x0D \<and> c \<noteq> CHR '' ''"
  by (auto simp: host_char_def isalnum_def isalpha_def isdigit_def isupper_def islower_def isspace_def newline_def)

lemma no_comment_plain: "\<forall>c \<in> set s. c \<noteq> CHR '';'' \<Longrightarrow> no_comment ws (s @ t) = (if s = [] then no_comment ws t else no_comment (isspace (last s)) t)"
  by (induction s arbitrary: ws) auto

lemma set_intercalate: "set (intercalate d ts) \<subseteq> set d \<union> \<Union> (set ` set ts)"
  by (induction ts rule: induct_list012) auto

text \<open>
  The semicolon that ends the line \<open>servers = "...";\<close> of the shipped configuration and of the
  README stays in the value, as no blank precedes it, and becomes part of the last host name.
\<close>

theorem trailing_semicolon:
  assumes "boost_contract B" and "hs \<noteq> []" and "\<forall>h \<in> set hs. \<forall>c \<in> set h. host_char c"
    and "length (intercalate '','' hs) < 150"
  shows "as_server_list (set_control (read_settings B (INIReader (Some (render_ini
      [(''aerospike'', [(''servers'', [CHR 0x22] @ intercalate '','' hs @ [CHR 0x22] @ '';'')])]))))) =
    butlast hs @ [last hs @ '';'']"
proof -
  let ?v = "[CHR 0x22] @ intercalate '','' hs @ [CHR 0x22] @ '';''"
  let ?conf = "[(''aerospike'', [(''servers'', ?v)])]"
  have ch: "c = CHR '','' \<or> host_char c" if "c \<in> set (intercalate '','' hs)" for c
    using that set_intercalate [of "'',''" hs] assms(3) by auto
  have cf: "c \<noteq> CHR '';'' \<and> c \<noteq> CHR 0x00 \<and> c \<noteq> newline \<and> c \<noteq> CHR 0x22 \<and> c \<noteq> CHR 0x09 \<and> c \<noteq> CHR 0x0A \<and>
      c \<noteq> CHR 0x0D \<and> c \<noteq> CHR '' ''" if "c \<in> set (intercalate '','' hs)" for c
    using ch [OF that] host_char_facts by (auto simp: newline_def)
  have "no_comment False ?v"
    using cf no_comment_plain [of "[CHR 0x22] @ intercalate '','' hs @ [CHR 0x22]" False "'';''"]
    by (simp add: isspace_def)
  then have pv: "plain_value ?v"
    using cf by (auto simp: plain_value_def isspace_def newline_def)
  have c: "plain_conf ?conf"
    using pv assms(4)
    by (simp add: plain_conf_def plain_section_def plain_pair_def plain_name_def isspace_def newline_def)
  have g: "Get (INIReader (Some (render_ini ?conf))) ''aerospike'' ''servers'' d = ?v" for d
    using vh.ini_parse_render [OF c, of Map.empty]
    by (simp add: INIReader_def ini_parse_def Get_def conf_triples_def store_all_def store_value_fresh)
  have cl: "clean_servers B ?v = intercalate '','' hs @ '';''"
    using cf by (simp add: clean_servers_filter [OF assms(1)] filter_id_conv)
  have ic: "intercalate '','' hs @ '';'' = intercalate '','' (butlast hs @ [last hs @ '';''])"
    using assms(2) by (induction hs rule: induct_list012) (simp_all add: intercalate_Cons)
  have tk: "tokens_of '','' (intercalate '','' (butlast hs @ [last hs @ '';''])) = butlast hs @ [last hs @ '';'']"
  proof -
    have "CHR '','' \<notin> set h" if "h \<in> set hs" for h
      using assms(3) that host_char_facts by blast
    then have n: "\<forall>h \<in> set (butlast hs @ [last hs @ '';'']). CHR '','' \<notin> set h"
      using assms(2) by (auto dest: in_set_butlastD)
    show ?thesis by (rule tokens_of_intercalate [OF _ n]) simp
  qed
  show ?thesis
    by (simp only: read_settings_servers g cl ic boost_contractD(2) [OF assms(1)] tk)
qed

lemma trailing_semicolon_witness:
  "as_server_list (set_control (read_settings boost_ref (INIReader (Some (render_ini
      [(''aerospike'', [(''servers'', [CHR 0x22] @ ''10.3.10.106,10.3.10.107'' @ [CHR 0x22] @ '';'')])]))) :: nat settings)) =
    [''10.3.10.106'', ''10.3.10.107;'']"
  using trailing_semicolon [OF boost_ref_contract, of "[''10.3.10.106'', ''10.3.10.107'']"]
  by (simp add: host_char_def isalnum_def isdigit_def)

end
