(* ===== verification/Server.thy ===== *)
theory Server
  imports Connection Main_Config
begin

text \<open>
  \<open>include/server.hpp\<close> and \<open>src/server.cpp\<close>: the server object. Its asynchronous operations (the
  accept, the health timer, the wait for a signal) are flags that say which are pending; a
  completion clears the flag and runs the handler, in a step relation over the server and the
  world. A connection object is named by the number of its creation. Sockets, socket options and
  the start-up time string are left out.
\<close>

record 't server =
  asOP :: "'t as_control"
  thread_pool_size :: nat
  isHandleStop :: bool
  new_connection :: nat
  started :: "nat list"
  accept_wait :: bool
  timer_wait :: bool
  signal_wait :: bool
  io_stopped :: bool

definition start_accept :: "'t server \<Rightarrow> 't server" where
  "start_accept s = s\<lparr>new_connection := new_connection s + 1, accept_wait := True\<rparr>"

definition server_new :: "'t as_control \<Rightarrow> nat \<Rightarrow> 't server" where
  "server_new c pool_size =
     (let s0 = \<lparr>asOP = c, thread_pool_size = pool_size, isHandleStop = False, new_connection = 0,
                started = [], accept_wait = False, timer_wait = False, signal_wait = False,
                io_stopped = False\<rparr>;
          s1 = s0\<lparr>signal_wait := True\<rparr>;
          s2 = s1\<lparr>timer_wait := True\<rparr>
      in (start_accept s2)\<lparr>isHandleStop := False\<rparr>)"

definition handle_accept :: "bool \<Rightarrow> 't server \<Rightarrow> 't server" where
  "handle_accept e s =
     start_accept (if \<not> e then s\<lparr>started := started s @ [new_connection s]\<rparr> else s)"

definition handle_timer :: "'w aerospike \<Rightarrow> 't list \<Rightarrow> 't server \<Rightarrow> 'w \<Rightarrow> 't server \<times> 'w" where
  "handle_timer A order s w =
     (if \<not> isHandleStop s then
        (let (c, w') = CheckAsServersStatus A order (asOP s) w
         in (s\<lparr>asOP := c, timer_wait := True\<rparr>, w'))
      else (s, w))"

definition handle_stop :: "'t server \<Rightarrow> 't server" where
  "handle_stop s = s\<lparr>isHandleStop := True, io_stopped := True\<rparr>"

fun register_threads :: "'t list \<Rightarrow> int \<Rightarrow> ('t \<rightharpoonup> int) \<Rightarrow> ('t \<rightharpoonup> int)" where
  "register_threads [] i m = m"
| "register_threads (t # ts) i m = register_threads ts (i + 1) (m(t \<mapsto> i))"

text \<open>\<open>run\<close> up to the joins: \<open>ids\<close> are the ids of the new threads, \<open>order\<close> lists the keys of the map
  they are entered in.\<close>

definition run :: "'w aerospike \<Rightarrow> 't list \<Rightarrow> 't list \<Rightarrow> 't server \<Rightarrow> 'w \<Rightarrow> 't server \<times> 'w" where
  "run A ids order s w =
     (let c = (asOP s)\<lparr>mthreadList := register_threads ids 0 (mthreadList (asOP s))\<rparr>;
          (c', w') = Initialize A order c w
      in (s\<lparr>asOP := c'\<rparr>, w'))"

inductive server_step :: "'w aerospike \<Rightarrow> 't server \<times> 'w \<Rightarrow> 't server \<times> 'w \<Rightarrow> bool" for A where
  accept_done:
    "\<not> io_stopped s \<Longrightarrow> accept_wait s \<Longrightarrow>
       server_step A (s, w) (handle_accept e (s\<lparr>accept_wait := False\<rparr>), w)"
| timer_done:
    "\<not> io_stopped s \<Longrightarrow> timer_wait s \<Longrightarrow>
       server_step A (s, w) (handle_timer A order (s\<lparr>timer_wait := False\<rparr>) w)"
| signal_done:
    "\<not> io_stopped s \<Longrightarrow> signal_wait s \<Longrightarrow>
       server_step A (s, w) (handle_stop (s\<lparr>signal_wait := False\<rparr>), w)"

inductive_cases server_stepE: "server_step A (s, w) (s', w')"

section \<open>Lemmas\<close>

definition server_inv :: "'t server \<Rightarrow> bool" where
  "server_inv s \<longleftrightarrow>
     accept_wait s \<and> io_stopped s = isHandleStop s \<and> (isHandleStop s \<or> timer_wait s \<and> signal_wait s) \<and>
     distinct (started s) \<and> (\<forall>c \<in> set (started s). c < new_connection s)"

lemma server_inv_new: "server_inv (server_new c n)"
  by (simp add: server_inv_def server_new_def start_accept_def)

lemma server_inv_step:
  assumes "server_step A x y" and "server_inv (fst x)"
  shows "server_inv (fst y)"
  using assms
proof (induction rule: server_step.induct)
  case (accept_done s w e)
  then show ?case
    by (auto simp: server_inv_def handle_accept_def start_accept_def)
next
  case (timer_done s w order)
  then show ?case
    by (auto simp: server_inv_def handle_timer_def split: prod.split)
next
  case (signal_done s w)
  then show ?case
    by (auto simp: server_inv_def handle_stop_def)
qed

lemma server_inv_reachable:
  "(server_step A)\<^sup>*\<^sup>* x y \<Longrightarrow> server_inv (fst x) \<Longrightarrow> server_inv (fst y)"
  by (induction rule: rtranclp_induct) (auto intro: server_inv_step)

lemma register_threads_dom: "dom (register_threads ts i m) = dom m \<union> set ts"
  by (induction ts arbitrary: i m) auto

lemma register_threads_other: "t \<notin> set ts \<Longrightarrow> register_threads ts i m t = m t"
  by (induction ts arbitrary: i m) auto

lemma register_threads_at: "distinct ts \<Longrightarrow> k < length ts \<Longrightarrow> register_threads ts i m (ts ! k) = Some (i + int k)"
  by (induction ts arbitrary: i m k) (auto simp: nth_Cons register_threads_other split: nat.splits)

section \<open>Properties\<close>

text \<open>
  C28: until a signal stops it, the server always has an accept, the health timer and the signal wait
  pending, whatever operations completed in whatever order and with whatever errors, and it starts
  no connection object twice; a stopped server runs no further handler.
\<close>

theorem server_keeps_accepting:
  assumes "(server_step A)\<^sup>*\<^sup>* (server_new c n, w0) (s, w)"
  shows "distinct (started s) \<and>
    (if isHandleStop s then \<nexists>y. server_step A (s, w) y else accept_wait s \<and> timer_wait s \<and> signal_wait s)"
proof -
  have i: "server_inv s"
    using server_inv_reachable [OF assms] by (simp add: server_inv_new)
  have "\<not> server_step A (s, w) y" if "isHandleStop s" for y
    using i that by (cases y) (auto simp: server_inv_def elim!: server_step.cases)
  then show ?thesis using i by (auto simp: server_inv_def)
qed

lemma server_keeps_accepting_witness:
  "\<exists>s w. (server_step cell_store)\<^sup>*\<^sup>* (server_new sample_control 2, None) (s, w) \<and> started s = [1] \<and> accept_wait s"
proof -
  let ?s0 = "server_new sample_control 2"
  let ?s1 = "handle_accept False (?s0\<lparr>accept_wait := False\<rparr>)"
  have "server_step cell_store (?s0, None) (?s1, None)"
    by (rule accept_done) (simp_all add: server_new_def start_accept_def)
  then have r: "(server_step cell_store)\<^sup>*\<^sup>* (?s0, None) (?s1, None)" by blast
  have "started ?s1 = [1]" "\<not> isHandleStop ?s1"
    by (simp_all add: handle_accept_def start_accept_def server_new_def)
  then show ?thesis using server_keeps_accepting [OF r] r by auto
qed

text \<open>
  \<open>run\<close> enters the threads of the pool under their numbers, and when it goes on to wait for them
  each has its own object.
\<close>

theorem run_prepares_threads:
  assumes "run A ids order s w = (s', w')" and "distinct ids" and "k < length ids"
    and "set order = dom (register_threads ids 0 (mthreadList (asOP s)))"
    and "rAsList (asOP s) = Map.empty"
  shows "register_threads ids 0 (mthreadList (asOP s)) (ids ! k) = Some (int k) \<and>
    dom (rAsList (asOP s')) = dom (mthreadList (asOP s)) \<union> set ids"
proof -
  let ?c = "(asOP s)\<lparr>mthreadList := register_threads ids 0 (mthreadList (asOP s))\<rparr>"
  have "rAsList (asOP s') = rAsList (fst (acquire_all (GetAsObject A) order ?c w))"
    using assms(1) by (auto simp: run_def Initialize_def Initialize_acquire_all split: prod.splits)
  then have "dom (rAsList (asOP s')) = set order"
    using pool.acquire_all_covers [of A order ?c w] assms(5) by simp
  then show ?thesis
    using register_threads_at [OF assms(2,3), of 0] assms(4) by (simp add: register_threads_dom)
qed

lemma run_prepares_threads_witness:
  "\<exists>s' w'. run cell_store [5, 7] [5, 7] (server_new sample_control 2) None = (s', w') \<and>
     dom (rAsList (asOP s')) = {5, 7}"
proof -
  obtain s' w' where r: "run cell_store [5, 7] [5, 7] (server_new sample_control 2) None = (s', w')" by fastforce
  from run_prepares_threads [OF r, of 1] r show ?thesis
    by (auto simp: server_new_def start_accept_def sample_control_def AS_CONTROL_new_def)
qed

end
