(* ===== verification/Proxy.thy ===== *)
theory Proxy
  imports Session Server
begin

text \<open>
  The whole program while it runs: the server, the connections it has made and what each has
  written, with the pool and the database. A thread of the pool takes the next completion from the
  event loop and runs its handler; the strand of a connection keeps its handlers from running at the
  same time, and handlers of different connections are taken one after the other, in any order.
  An action is a completion, with the thread that runs its handler; one whose operation is not
  pending, and any after the stop, changes nothing. A connection is created by \<open>start_accept\<close> with
  members that are undetermined, so the action brings the new object along.
\<close>

record 't proxy =
  srv :: "'t server"
  conns :: "nat \<rightharpoonup> connection"
  sent :: "nat \<Rightarrow> string list"

datatype 't action =
    Accepted bool int int status_type "32 word"
  | Completed 't nat event
  | Tick "'t list"
  | Signalled

text \<open>\<open>handle_accept\<close> with the connection objects: the accepted one starts reading, or is dropped with
  its error, and \<open>start_accept\<close> makes the next.\<close>

definition accept_connection :: "bool \<Rightarrow> connection \<Rightarrow> 't proxy \<Rightarrow> 't proxy" where
  "accept_connection e fresh p =
     (let i = new_connection (srv p);
          conns1 = (conns p)(i := if \<not> e then map_option conn_start (conns p i) else None);
          srv1 = handle_accept e ((srv p)\<lparr>accept_wait := False\<rparr>)
      in p\<lparr>srv := srv1, conns := conns1(new_connection srv1 \<mapsto> fresh)\<rparr>)"

definition proxy_new :: "'t as_control \<Rightarrow> nat \<Rightarrow> connection \<Rightarrow> 't proxy" where
  "proxy_new c pool_size fresh =
     (let s = server_new c pool_size
      in \<lparr>srv = s, conns = [new_connection s \<mapsto> fresh], sent = (\<lambda>i. [])\<rparr>)"

fun proxy_act ::
  "('j, 'w, 'z) libs \<Rightarrow> 't action \<Rightarrow> 't proxy \<Rightarrow> 'w \<Rightarrow> ('t proxy \<times> 'w) outcome" where
  "proxy_act L (Accepted e a b st n) p w =
     (if \<not> io_stopped (srv p) \<and> accept_wait (srv p)
      then Inr (accept_connection e (connection_new a b st n) p, w) else Inr (p, w))"
| "proxy_act L (Completed t i ev) p w =
     (case conns p i of
        None \<Rightarrow> Inr (p, w)
      | Some conn \<Rightarrow>
          if io_stopped (srv p) then Inr (p, w)
          else
            (case conn_event (lib_boost L) (handle_request L t) ev conn (asOP (srv p), w) of
               Inl e \<Rightarrow> Inl e
             | Inr (conn', out, c', w') \<Rightarrow>
                 Inr (p\<lparr>srv := (srv p)\<lparr>asOP := c'\<rparr>, conns := (conns p)(i \<mapsto> conn'),
                      sent := (sent p)(i := sent p i @ out)\<rparr>, w')))"
| "proxy_act L (Tick order) p w =
     (if \<not> io_stopped (srv p) \<and> timer_wait (srv p) then
        (let (s', w') = handle_timer (lib_as L) order ((srv p)\<lparr>timer_wait := False\<rparr>) w
         in Inr (p\<lparr>srv := s'\<rparr>, w'))
      else Inr (p, w))"
| "proxy_act L Signalled p w =
     (if \<not> io_stopped (srv p) \<and> signal_wait (srv p)
      then Inr (p\<lparr>srv := handle_stop ((srv p)\<lparr>signal_wait := False\<rparr>)\<rparr>, w) else Inr (p, w))"

fun proxy_run ::
  "('j, 'w, 'z) libs \<Rightarrow> 't action list \<Rightarrow> 't proxy \<Rightarrow> 'w \<Rightarrow> ('t proxy \<times> 'w) outcome" where
  "proxy_run L [] p w = Inr (p, w)"
| "proxy_run L (a # as) p w =
     (case proxy_act L a p w of Inl e \<Rightarrow> Inl e | Inr (p', w') \<Rightarrow> proxy_run L as p' w')"

lemma proxy_run_append:
  "proxy_run L (as @ bs) p w =
     (case proxy_run L as p w of Inl e \<Rightarrow> Inl e | Inr (p', w') \<Rightarrow> proxy_run L bs p' w')"
  by (induction as arbitrary: p w) (auto split: sum.split)

section \<open>What every interleaving maintains\<close>

text \<open>
  The server keeps its own invariant, each connection keeps its own, the connection waiting to be
  accepted waits for nothing else, and numbers not yet given have no connection and no output.
\<close>

definition proxy_inv :: "'t proxy \<Rightarrow> bool" where
  "proxy_inv p \<longleftrightarrow>
     server_inv (srv p) \<and>
     (\<forall>i conn. conns p i = Some conn \<longrightarrow> conn_inv conn) \<and>
     (\<exists>a b st n. conns p (new_connection (srv p)) = Some (connection_new a b st n)) \<and>
     (\<forall>i > new_connection (srv p). conns p i = None) \<and>
     (\<forall>i \<ge> new_connection (srv p). sent p i = [])"

lemma conn_inv_new: "conn_inv (connection_new a b st n)"
  by (simp add: conn_inv_def connection_new_def)

lemma conn_inv_conn_start: "conn_inv (conn_start (connection_new a b st n))"
  by (rule conn_inv_start)

lemma new_closed: "pending (connection_new a b st n) = Closed"
  by (simp add: connection_new_def)

lemma new_ignores: "conn_event B H ev (connection_new a b st n) s = Inr (connection_new a b st n, [], s)"
  by (cases ev) (simp_all add: new_closed)

lemma proxy_inv_new: "proxy_inv (proxy_new c k (connection_new a b st n))"
  by (auto simp: proxy_inv_def proxy_new_def Let_def server_inv_new conn_inv_new)

lemma server_inv_asOP [simp]: "server_inv (s\<lparr>asOP := c\<rparr>) = server_inv s"
  by (simp add: server_inv_def)

lemma proxy_inv_accept:
  assumes "proxy_inv p"
  shows "proxy_inv (accept_connection e (connection_new a b st n) p)"
proof -
  obtain a0 b0 st0 n0 where new: "conns p (new_connection (srv p)) = Some (connection_new a0 b0 st0 n0)"
    using assms by (auto simp: proxy_inv_def)
  have "server_inv (handle_accept e ((srv p)\<lparr>accept_wait := False\<rparr>))"
    using assms by (auto simp: proxy_inv_def server_inv_def handle_accept_def start_accept_def)
  then show ?thesis
    using assms new
    by (auto simp: proxy_inv_def accept_connection_def handle_accept_def start_accept_def Let_def conn_inv_new
        conn_inv_conn_start)
qed

lemma handle_timer_keeps:
  "handle_timer A order s w = (s', w') \<Longrightarrow>
     new_connection s' = new_connection s \<and> io_stopped s' = io_stopped s \<and> accept_wait s' = accept_wait s \<and>
     signal_wait s' = signal_wait s \<and> isHandleStop s' = isHandleStop s \<and> started s' = started s \<and>
     (timer_wait s' \<longleftrightarrow> timer_wait s \<or> \<not> isHandleStop s)"
  by (auto simp: handle_timer_def split: prod.splits if_splits)

lemma proxy_inv_srv:
  "proxy_inv p \<Longrightarrow> server_inv s' \<Longrightarrow> new_connection s' = new_connection (srv p) \<Longrightarrow> proxy_inv (p\<lparr>srv := s'\<rparr>)"
  by (simp add: proxy_inv_def)

lemma proxy_inv_completed:
  assumes "proxy_inv p" and conn: "conns p i = Some conn"
    and ev: "conn_event (lib_boost L) (handle_request L t) ev conn (asOP (srv p), w) = Inr (conn', out, c', w')"
    and p': "p' = p\<lparr>srv := (srv p)\<lparr>asOP := c'\<rparr>, conns := (conns p)(i \<mapsto> conn'), sent := (sent p)(i := sent p i @ out)\<rparr>"
  shows "proxy_inv p'"
proof -
  note inv = assms(1) [unfolded proxy_inv_def]
  let ?n = "new_connection (srv p)"
  have c': "conn_inv conn'" by (rule conn_inv_event [OF _ ev]) (use inv conn in blast)
  have le: "i \<le> ?n" using inv conn by (metis not_le option.distinct(1))
  obtain a0 b0 st0 n0 where fresh: "conns p ?n = Some (connection_new a0 b0 st0 n0)" using inv by blast
  have new: "conn' = conn" "out = []" if "i = ?n"
  proof -
    have c: "conn = connection_new a0 b0 st0 n0" using fresh conn that by simp
    show "conn' = conn" "out = []" using ev unfolding c new_ignores by simp_all
  qed
  have "server_inv (srv p')" "new_connection (srv p') = ?n" using inv by (simp_all add: p')
  moreover have "\<forall>j d. conns p' j = Some d \<longrightarrow> conn_inv d" using inv c' by (simp add: p')
  moreover have "\<exists>a b st n. conns p' ?n = Some (connection_new a b st n)"
    using inv conn new by (cases "i = ?n") (simp_all add: p')
  moreover have "\<forall>j > ?n. conns p' j = None" using inv le by (simp add: p')
  moreover have "\<forall>j \<ge> ?n. sent p' j = []" using inv le new by (simp add: p')
  ultimately show ?thesis unfolding proxy_inv_def by (simp only:)
qed

lemma proxy_inv_act:
  assumes "proxy_inv p" and "proxy_act L a p w = Inr (p', w')"
  shows "proxy_inv p'"
proof (cases a)
  case (Accepted e a b st n)
  with assms show ?thesis by (auto simp: proxy_inv_accept split: if_splits)
next
  case (Completed t i ev)
  show ?thesis
  proof (cases "conns p i = None \<or> io_stopped (srv p)")
    case True
    with assms Completed show ?thesis by (auto split: option.splits)
  next
    case False
    then obtain conn where conn: "conns p i = Some conn" by auto
    obtain conn' out c' where ev: "conn_event (lib_boost L) (handle_request L t) ev conn (asOP (srv p), w) =
        Inr (conn', out, c', w')"
      and p': "p' = p\<lparr>srv := (srv p)\<lparr>asOP := c'\<rparr>, conns := (conns p)(i \<mapsto> conn'), sent := (sent p)(i := sent p i @ out)\<rparr>"
      using assms(2) Completed conn False by (auto split: sum.splits)
    show ?thesis by (rule proxy_inv_completed [OF assms(1) conn ev p'])
  qed
next
  case (Tick order)
  show ?thesis
  proof (cases "\<not> io_stopped (srv p) \<and> timer_wait (srv p)")
    case True
    obtain s' w1 where h: "handle_timer (lib_as L) order ((srv p)\<lparr>timer_wait := False\<rparr>) w = (s', w1)" by fastforce
    have p': "p' = p\<lparr>srv := s'\<rparr>" using assms(2) Tick True h by simp
    have "server_inv s'" "new_connection s' = new_connection (srv p)"
      using handle_timer_keeps [OF h] assms(1) True by (auto simp: proxy_inv_def server_inv_def)
    then show ?thesis unfolding p' by (rule proxy_inv_srv [OF assms(1)])
  next
    case False
    then show ?thesis using assms Tick by auto
  qed
next
  case Signalled
  show ?thesis
  proof (cases "\<not> io_stopped (srv p) \<and> signal_wait (srv p)")
    case True
    let ?s = "handle_stop ((srv p)\<lparr>signal_wait := False\<rparr>)"
    have p': "p' = p\<lparr>srv := ?s\<rparr>" using assms(2) Signalled True by simp
    have "server_inv ?s" "new_connection ?s = new_connection (srv p)"
      using assms(1) True by (auto simp: proxy_inv_def server_inv_def handle_stop_def)
    then show ?thesis unfolding p' by (rule proxy_inv_srv [OF assms(1)])
  next
    case False
    then show ?thesis using assms Signalled by auto
  qed
qed

lemma proxy_inv_run: "proxy_inv p \<Longrightarrow> proxy_run L as p w = Inr (p', w') \<Longrightarrow> proxy_inv p'"
proof (induction as arbitrary: p w)
  case Nil
  then show ?case by simp
next
  case (Cons a as)
  then show ?case by (auto split: sum.splits dest: proxy_inv_act)
qed

section \<open>What a client receives\<close>

lemma sent_prefix_act:
  assumes "proxy_act L a p w = Inr (p', w')"
  shows "\<exists>out. sent p' i = sent p i @ out"
  using assms
  by (cases a) (auto simp: accept_connection_def Let_def split: if_splits option.splits sum.splits prod.splits)

lemma sent_framed_act:
  assumes "boost_contract (lib_boost L)" and "proxy_act L a p w = Inr (p', w')"
    and "\<forall>x \<in> set (sent p i). framed x" and "\<forall>x \<in> set (sent p' i). int (length x) \<le> 2147483647"
  shows "\<forall>x \<in> set (sent p' i). framed x"
  using assms(2-4) svc.event_framed [OF assms(1)]
  by (cases a)
    (fastforce simp: accept_connection_def Let_def split: if_splits option.splits sum.splits prod.splits)+

lemma sent_framed_run:
  assumes "boost_contract (lib_boost L)"
  shows "proxy_run L as p w = Inr (p', w') \<Longrightarrow> \<forall>x \<in> set (sent p i). framed x \<Longrightarrow>
    \<forall>x \<in> set (sent p' i). int (length x) \<le> 2147483647 \<Longrightarrow> \<forall>x \<in> set (sent p' i). framed x"
proof (induction as arbitrary: p w)
  case Nil
  then show ?case by simp
next
  case (Cons a as)
  then obtain p1 w1 where a: "proxy_act L a p w = Inr (p1, w1)" and r: "proxy_run L as p1 w1 = Inr (p', w')"
    by (auto split: sum.splits)
  have "\<exists>out. sent p' i = sent p1 i @ out" using r
  proof (induction as arbitrary: p1 w1)
    case (Cons b bs)
    then show ?case using sent_prefix_act [of L b p1 w1 _ _ i] by (fastforce split: sum.splits)
  qed simp
  then have "\<forall>x \<in> set (sent p1 i). int (length x) \<le> 2147483647" using Cons.prems(3) by auto
  then show ?case
    using Cons.IH [OF r] Cons.prems sent_framed_act [OF assms a] by blast
qed

section \<open>One connection among the others\<close>

text \<open>
  The events of one connection, and the connection alone: its handler is run, call by call, by the
  threads and on the states of pool and database that a script gives; a script that is too short is an error.
\<close>

fun own :: "nat \<Rightarrow> 't action list \<Rightarrow> event list" where
  "own i [] = []"
| "own i (Completed t j ev # as) = (if j = i then ev # own i as else own i as)"
| "own i (_ # as) = own i as"

fun scripted :: "('j, 'w, 'z) libs \<Rightarrow> ('t \<times> 't as_control \<times> 'w) list service" where
  "scripted L r rep ka [] = Inl Out_of_bounds_read"
| "scripted L r rep ka ((t, s) # ts) =
     (case handle_request L t r rep ka s of Inl e \<Rightarrow> Inl e | Inr (rep', s') \<Rightarrow> Inr (rep', ts))"

text \<open>The threads and states the handler of a connection meets in a run.\<close>

definition occurs ::
  "('j, 'w, 'z) libs \<Rightarrow> 't action list \<Rightarrow> 't proxy \<Rightarrow> 'w \<Rightarrow> nat \<Rightarrow> 't \<times> 't as_control \<times> 'w \<Rightarrow> bool" where
  "occurs L as p w i ts \<longleftrightarrow>
     (\<exists>as1 t ev as2 p1 w1. as = as1 @ Completed t i ev # as2 \<and> proxy_run L as1 p w = Inr (p1, w1) \<and>
        ts = (t, asOP (srv p1), w1))"

lemma occurs_first: "occurs L (Completed t i ev # as) p w i (t, asOP (srv p), w)"
  unfolding occurs_def by (intro exI [of _ "[]"] exI [of _ t] exI [of _ ev] exI [of _ as] exI [of _ p] exI [of _ w]) simp

lemma occurs_later:
  assumes "proxy_act L a p w = Inr (p1, w1)" and "occurs L as p1 w1 i ts"
  shows "occurs L (a # as) p w i ts"
proof -
  obtain as1 t ev as2 p2 w2 where "as = as1 @ Completed t i ev # as2" "proxy_run L as1 p1 w1 = Inr (p2, w2)"
    "ts = (t, asOP (srv p2), w2)"
    using assms(2) unfolding occurs_def by blast
  then have "a # as = (a # as1) @ Completed t i ev # as2" "proxy_run L (a # as1) p w = Inr (p2, w2)"
    "ts = (t, asOP (srv p2), w2)"
    using assms(1) by simp_all
  then show ?thesis unfolding occurs_def by blast
qed

lemma scripted_event:
  assumes "conn_event B (handle_request L t) ev c s = Inr (c', out, s')"
  shows "\<exists>ts. set ts \<subseteq> {(t, s)} \<and> (\<forall>rest. conn_event B (scripted L) ev c (ts @ rest) = Inr (c', out, rest))"
proof (cases ev)
  case (Write_done e)
  with assms show ?thesis by (intro exI [of _ "[]"]) (auto split: if_splits sum.splits)
next
  case (Read_done e bytes time)
  show ?thesis
  proof (cases "pending c = Pending_read")
    case False
    with assms Read_done show ?thesis by (intro exI [of _ "[]"]) simp
  next
    case True
    with assms Read_done have "handle_read B (handle_request L t) e bytes time c s = Inr (c', out, s')" by simp
    then show ?thesis
    proof (cases rule: handle_read_cases)
      case (accepted p r rest rep)
      then show ?thesis using True Read_done assms
        by (intro exI [of _ "[(t, s)]"]) (auto simp: handle_read_def Let_def split: if_splits)
    qed (use True Read_done assms in \<open>auto simp: handle_read_def Let_def intro: exI [of _ "[]"] split: if_splits\<close>)
  qed
qed

lemma own_append: "own i (as @ bs) = own i as @ own i bs"
  by (induction i as rule: own.induct) simp_all

lemma alone_act:
  assumes "proxy_act L a p w = Inr (p', w')" and "a \<noteq> Signalled"
    and "conns p i = Some c" and "i < new_connection (srv p)" and "\<not> io_stopped (srv p)"
  shows "\<exists>ts c' outs. conns p' i = Some c' \<and> sent p' i = sent p i @ outs \<and>
    (\<forall>rest. conn_run (lib_boost L) (scripted L) (own i [a]) c (ts @ rest) = Inr (c', outs, rest)) \<and>
    (\<forall>x \<in> set ts. occurs L (a # as) p w i x) \<and> i < new_connection (srv p') \<and> \<not> io_stopped (srv p')"
proof (cases a)
  case (Accepted e a b st n)
  with assms show ?thesis
    by (intro exI [of _ "[]"])
      (auto simp: accept_connection_def handle_accept_def start_accept_def Let_def split: if_splits)
next
  case (Completed t j ev)
  show ?thesis
  proof (cases "j = i")
    case True
    then obtain c' out s' where ev: "conn_event (lib_boost L) (handle_request L t) ev c (asOP (srv p), w) = Inr (c', out, s')"
      and p': "conns p' i = Some c'" "sent p' i = sent p i @ out" "new_connection (srv p') = new_connection (srv p)"
        "io_stopped (srv p') = io_stopped (srv p)"
      using assms Completed by (auto split: sum.splits)
    obtain ts where ts: "set ts \<subseteq> {(t, asOP (srv p), w)}"
      "\<And>rest. conn_event (lib_boost L) (scripted L) ev c (ts @ rest) = Inr (c', out, rest)"
      using scripted_event [OF ev] by blast
    then have "\<forall>x \<in> set ts. occurs L (a # as) p w i x"
      using occurs_first [of L t i ev as p w] Completed True by auto
    then show ?thesis using True Completed p' assms(4,5) ts(2) by (intro exI [of _ ts]) simp
  next
    case False
    with assms Completed show ?thesis
      by (intro exI [of _ "[]"]) (auto split: option.splits if_splits sum.splits)
  qed
next
  case (Tick order)
  with assms show ?thesis
    using handle_timer_keeps [of "lib_as L" order "(srv p)\<lparr>timer_wait := False\<rparr>" w]
    by (intro exI [of _ "[]"]) (auto split: if_splits prod.splits)
qed (use assms(2) in blast)

lemma alone_run:
  assumes "conns p i = Some c" and "i < new_connection (srv p)" and "\<not> io_stopped (srv p)"
    and "Signalled \<notin> set as" and "proxy_run L as p w = Inr (p', w')"
  shows "\<exists>ts c' outs. conns p' i = Some c' \<and> sent p' i = sent p i @ outs \<and>
    (\<forall>rest. conn_run (lib_boost L) (scripted L) (own i as) c (ts @ rest) = Inr (c', outs, rest)) \<and>
    (\<forall>x \<in> set ts. occurs L as p w i x)"
  using assms
proof (induction as arbitrary: p w c)
  case Nil
  then show ?case by (intro exI [of _ "[]"]) simp
next
  case (Cons a as)
  obtain p1 w1 where a: "proxy_act L a p w = Inr (p1, w1)" and r: "proxy_run L as p1 w1 = Inr (p', w')"
    using Cons.prems(5) by (auto split: sum.splits)
  have "a \<noteq> Signalled" using Cons.prems(4) by auto
  then obtain ts c1 outs where s: "conns p1 i = Some c1" "sent p1 i = sent p i @ outs"
    "\<forall>rest. conn_run (lib_boost L) (scripted L) (own i [a]) c (ts @ rest) = Inr (c1, outs, rest)"
    "\<forall>x \<in> set ts. occurs L (a # as) p w i x" "i < new_connection (srv p1)" "\<not> io_stopped (srv p1)"
    using alone_act [OF a _ Cons.prems(1-3), of as] by blast
  obtain ts' c' outs' where t: "conns p' i = Some c'" "sent p' i = sent p1 i @ outs'"
    "\<And>rest. conn_run (lib_boost L) (scripted L) (own i as) c1 (ts' @ rest) = Inr (c', outs', rest)"
    "\<forall>x \<in> set ts'. occurs L as p1 w1 i x"
    using Cons.IH [OF s(1,5,6) _ r] Cons.prems(4) by auto
  have o: "own i (a # as) = own i [a] @ own i as"
    using own_append [of i "[a]" as] by simp
  have "conn_run (lib_boost L) (scripted L) (own i (a # as)) c ((ts @ ts') @ rest) = Inr (c', outs @ outs', rest)" for rest
    unfolding o conn_run_append using spec [OF s(3), of "ts' @ rest"] t(3) [of rest] by simp
  moreover have "\<forall>x \<in> set (ts @ ts'). occurs L (a # as) p w i x"
    using s(4) t(4) occurs_later [OF a] by auto
  ultimately show ?case using s(2) t(1,2) by (intro exI [of _ "ts @ ts'"]) simp
qed

text \<open>The replies of a session, each the handler's in a state that satisfies \<open>P\<close>.\<close>

fun answered ::
  "('j, 'w, 'z) libs \<Rightarrow> ('t \<times> 't as_control \<times> 'w \<Rightarrow> bool) \<Rightarrow> exchange list \<Rightarrow> string list \<Rightarrow> bool" where
  "answered L P [] outs \<longleftrightarrow> outs = []"
| "answered L P ((r, bs, time) # xs) outs \<longleftrightarrow>
     (\<exists>t s rep s' outs'. P (t, s) \<and> outs = wire rep # outs' \<and>
        handle_request L t (r\<lparr>tstamp := time\<rparr>) (reply_new Ok) (want_keepalive (lib_boost L) r) s = Inr (rep, s') \<and>
        (if want_keepalive (lib_boost L) r then answered L P xs outs' else outs' = []))"

lemma scripted_irrelevant: "reply_irrelevant (scripted L)"
  unfolding reply_irrelevant_def
proof (intro allI impI)
  fix r ka ts and rep :: reply
  assume "rep_content rep = []"
  then show "scripted L r rep ka ts = scripted L r (reply_new Ok) ka ts"
    by (cases ts) (auto simp: handle_request_reply_irrelevant split: sum.split)
qed

lemma scripted_session:
  assumes "ready conn" and "list_all exchange_ok xs"
    and "conn_run (lib_boost L) (scripted L) (session_events xs) conn ts = Inr (conn', outs, ts')"
    and "\<forall>x \<in> set ts. P x"
  shows "answered L P xs outs"
  using assms
proof (induction xs arbitrary: conn outs ts)
  case Nil
  then show ?case by simp
next
  case (Cons x xs)
  obtain r bs time where x: "x = (r, bs, time)" by (cases x)
  let ?B = "lib_boost L" let ?ka = "want_keepalive ?B r"
  have ok: "exchange_ok (r, bs, time)" using Cons.prems(2) by (simp add: x)
  obtain c1 where e: "conn_run ?B (scripted L) (session_events [(r, bs, time)]) conn ts =
      (case scripted L (r\<lparr>tstamp := time\<rparr>) (reply_new Ok) ?ka ts of
         Inl e \<Rightarrow> Inl e | Inr (rep, s') \<Rightarrow> Inr (c1 rep, [wire rep], s'))"
    and k: "\<forall>rep. if ?ka then ready (c1 rep) else pending (c1 rep) = Closed"
    using exchange_run_service [OF Cons.prems(1) ok scripted_irrelevant, of ?B L ts] by (elim exE conjE) (rule that)
  note run = Cons.prems(3) [unfolded x session_events_Cons [of "(r, bs, time)" xs] conn_run_append e]
  obtain t s ts1 rep s1 where h: "ts = (t, s) # ts1"
    "handle_request L t (r\<lparr>tstamp := time\<rparr>) (reply_new Ok) ?ka s = Inr (rep, s1)"
    using run by (cases ts) (auto split: sum.splits)
  obtain outs' where rest: "conn_run ?B (scripted L) (session_events xs) (c1 rep) ts1 = Inr (conn', outs', ts')"
    and outs: "outs = wire rep # outs'"
    using run h by (auto split: sum.splits)
  have P: "P (t, s)" "\<forall>x \<in> set ts1. P x" using Cons.prems(4) h(1) by simp_all
  have "if ?ka then answered L P xs outs' else outs' = []"
  proof (cases ?ka)
    case True
    then show ?thesis
      using Cons.IH [OF _ _ rest P(2)] Cons.prems(2) spec [OF k, of rep] by simp
  next
    case False
    then show ?thesis
      using closed_ignores [of "c1 rep" ?B "scripted L" "session_events xs" ts1] spec [OF k, of rep] rest by simp
  qed
  then show ?case using h(2) P(1) outs unfolding x answered.simps by blast
qed

section \<open>The pool\<close>

text \<open>The objects of the pool, and which actions may change the object of a thread.\<close>

definition objects_of :: "'t proxy \<Rightarrow> 't \<rightharpoonup> as_object" where
  "objects_of p = rAsList (asOP (srv p))"

fun runs_on :: "'t \<Rightarrow> 't action \<Rightarrow> bool" where
  "runs_on t (Completed t' i ev) \<longleftrightarrow> t' = t"
| "runs_on t _ \<longleftrightarrow> False"

fun touches :: "'t \<Rightarrow> 't action \<Rightarrow> bool" where
  "touches t (Tick order) \<longleftrightarrow> True"
| "touches t a \<longleftrightarrow> runs_on t a"

definition pool_step :: "'t set \<Rightarrow> ('t \<rightharpoonup> as_object) \<Rightarrow> ('t \<rightharpoonup> as_object) \<Rightarrow> bool" where
  "pool_step T m m' \<longleftrightarrow> dom m \<subseteq> dom m' \<and> dom m' \<subseteq> dom m \<union> T"

lemma pool_step_refl [simp]: "pool_step T m m"
  by (simp add: pool_step_def)

lemma pool_step_trans: "pool_step T1 m m1 \<Longrightarrow> pool_step T2 m1 m2 \<Longrightarrow> pool_step (T1 \<union> T2) m m2"
  unfolding pool_step_def by blast

lemma GetAsObject_step:
  assumes "GetAsObject A t c w = (c', w')"
  shows "pool_step {t} (rAsList c) (rAsList c')" "t' \<noteq> t \<Longrightarrow> rAsList c' t' = rAsList c t'" "t \<in> dom (rAsList c')"
  using assms
  by (auto simp: GetAsObject_def insert_object_def pool_step_def split: if_splits prod.splits)

lemma handle_get_step:
  assumes "handle_get L t params base c w = Inr (j, c', w')"
  shows "pool_step {t} (rAsList c) (rAsList c')" "t' \<noteq> t \<Longrightarrow> rAsList c' t' = rAsList c t'"
proof -
  obtain c1 w1 where g: "GetAsObject (lib_as L) t c w = (c1, w1)" by fastforce
  have "rAsList c' = rAsList c1 \<or> (\<exists>x. rAsList c' = (rAsList c1)(t \<mapsto> x))"
    using assms g by (auto simp: handle_get_def Let_def split: option.splits sum.splits)
  then show "pool_step {t} (rAsList c) (rAsList c')" "t' \<noteq> t \<Longrightarrow> rAsList c' t' = rAsList c t'"
    using GetAsObject_step [OF g] by (auto simp: pool_step_def)
qed

lemma handle_request_step:
  assumes "handle_request L t r rep ka (c, w) = Inr (rep', c', w')"
  shows "pool_step {t} (rAsList c) (rAsList c') \<and> (\<forall>t'. t' \<noteq> t \<longrightarrow> rAsList c' t' = rAsList c t')"
proof -
  obtain api params w0 base w1 where "handle_api L t api params c w0 = Inr (base, c', w1)"
    using assms by (auto simp: handle_request_def Let_def split: sum.splits prod.splits)
  then show ?thesis
    by (auto simp: handle_api_def Let_def dest: handle_get_step split: if_splits)
qed

lemma conn_event_step:
  assumes "conn_event B (handle_request L t) ev conn (c, w) = Inr (conn', out, c', w')"
  shows "pool_step {t} (rAsList c) (rAsList c') \<and> (\<forall>t'. t' \<noteq> t \<longrightarrow> rAsList c' t' = rAsList c t')"
proof -
  have "c' = c \<or> (\<exists>r rep ka rep'. handle_request L t r rep ka (c, w) = Inr (rep', c', w'))"
    using assms
    by (cases ev) (auto split: if_splits sum.splits elim!: handle_read_cases)
  then show ?thesis using handle_request_step by fastforce
qed

lemma CheckAsServersStatus_dom:
  "CheckAsServersStatus A order c w = (c', w') \<Longrightarrow> dom (rAsList c') = dom (rAsList c)"
  using mon.sweep_dom [of A order "rAsList c" w] 
  by (cases "sweep (AS_OBJECT_STATUS A) (AS_OBJECT_RECONNECT A) order (rAsList c) w")
    (clarsimp simp: CheckAsServersStatus_def)

lemma pool_act:
  assumes "proxy_act L a p w = Inr (p', w')"
  shows "pool_step {t. runs_on t a} (objects_of p) (objects_of p')"
    and "\<not> touches t a \<Longrightarrow> objects_of p' t = objects_of p t"
proof -
  have "pool_step {t. runs_on t a} (objects_of p) (objects_of p') \<and>
    (\<forall>t. \<not> touches t a \<longrightarrow> objects_of p' t = objects_of p t)"
  proof (cases a)
    case (Accepted e x y st n)
    with assms show ?thesis
      by (auto simp: objects_of_def accept_connection_def handle_accept_def start_accept_def Let_def split: if_splits)
  next
    case (Completed t i ev)
    with assms show ?thesis
      by (auto simp: objects_of_def split: option.splits if_splits sum.splits dest!: conn_event_step)
  next
    case (Tick order)
    with assms show ?thesis
      using CheckAsServersStatus_dom [of "lib_as L" order "asOP (srv p)" w]
      by (cases "CheckAsServersStatus (lib_as L) order (asOP (srv p)) w")
        (clarsimp simp: objects_of_def handle_timer_def pool_step_def split: if_splits)
  next
    case Signalled
    with assms show ?thesis by (auto simp: objects_of_def handle_stop_def split: if_splits)
  qed
  then show "pool_step {t. runs_on t a} (objects_of p) (objects_of p')"
    and "\<not> touches t a \<Longrightarrow> objects_of p' t = objects_of p t" by blast+
qed

lemma pool_run:
  assumes "proxy_run L as p w = Inr (p', w')"
  shows "pool_step {t. \<exists>a \<in> set as. runs_on t a} (objects_of p) (objects_of p') \<and>
    (\<forall>t. (\<forall>a \<in> set as. \<not> touches t a) \<longrightarrow> objects_of p' t = objects_of p t)"
  using assms
proof (induction as arbitrary: p w)
  case Nil
  then show ?case by simp
next
  case (Cons a as)
  obtain p1 w1 where a: "proxy_act L a p w = Inr (p1, w1)" and r: "proxy_run L as p1 w1 = Inr (p', w')"
    using Cons.prems by (auto split: sum.splits)
  have "{t. \<exists>b \<in> set (a # as). runs_on t b} = {t. runs_on t a} \<union> {t. \<exists>b \<in> set as. runs_on t b}" by auto
  then show ?case
    using pool_step_trans [OF pool_act(1) [OF a], of "{t. \<exists>b \<in> set as. runs_on t b}" "objects_of p'"]
      Cons.IH [OF r] pool_act(2) [OF a] by simp
qed

section \<open>Progress\<close>

text \<open>The completions of one connection, all run by one thread, are a run of the connection.\<close>

lemma completed_run:
  assumes "conns p i = Some c" and "\<not> io_stopped (srv p)"
    and "conn_run (lib_boost L) (handle_request L t) evs c (asOP (srv p), w) = Inr (c', outs, cl', w')"
  shows "proxy_run L (map (Completed t i) evs) p w =
    Inr (p\<lparr>srv := (srv p)\<lparr>asOP := cl'\<rparr>, conns := (conns p)(i \<mapsto> c'), sent := (sent p)(i := sent p i @ outs)\<rparr>, w')"
  using assms
proof (induction evs arbitrary: p c w outs)
  case Nil
  then show ?case by (simp add: fun_upd_idem)
next
  case (Cons ev evs)
  obtain c1 out1 cl1 w1 outs1 where ev: "conn_event (lib_boost L) (handle_request L t) ev c (asOP (srv p), w) =
      Inr (c1, out1, cl1, w1)" and r: "conn_run (lib_boost L) (handle_request L t) evs c1 (cl1, w1) = Inr (c', outs1, cl', w')"
    and outs: "outs = out1 @ outs1"
    using Cons.prems(3) by (auto split: sum.splits)
  let ?p1 = "p\<lparr>srv := (srv p)\<lparr>asOP := cl1\<rparr>, conns := (conns p)(i \<mapsto> c1), sent := (sent p)(i := sent p i @ out1)\<rparr>"
  have "proxy_run L (map (Completed t i) evs) ?p1 w1 =
    Inr (?p1\<lparr>srv := (srv ?p1)\<lparr>asOP := cl'\<rparr>, conns := (conns ?p1)(i \<mapsto> c'), sent := (sent ?p1)(i := sent ?p1 i @ outs1)\<rparr>, w')"
    by (rule Cons.IH) (use Cons.prems r in simp_all)
  then show ?case using Cons.prems(1,2) ev outs by (auto intro!: proxy.equality)
qed

section \<open>Faults\<close>

text \<open>Every record the database returns has byte bins that end with a zero, as \<open>PUT\<close> stores them.\<close>

definition gets_terminated :: "'w aerospike \<Rightarrow> bool" where
  "gets_terminated A \<longleftrightarrow>
     (\<forall>cfg key w. list_all (\<lambda>(n, v). terminated v) (bins (fst (snd (snd (aerospike_key_get A cfg key w))))))"

text \<open>Memory is available and JSON values have texts.\<close>

definition no_failures :: "('j, 'w, 'z) libs \<Rightarrow> bool" where
  "no_failures L \<longleftrightarrow>
     lib_realloc L = (\<lambda>n. True) \<and> (\<forall>j. json_dumps (lib_json L) j dump_flags \<noteq> None) \<and> gets_terminated (lib_as L)"

lemma GET_total:
  assumes "gets_terminated A"
  shows "\<exists>res. GET A J Z (\<lambda>n. True) x ns s k obj t g w = Inr res"
proof -
  obtain st err rec w' where get: "aerospike_key_get A (as_cfg x) (as_key_init ns s k) w = (st, err, rec, w')"
    by (cases "aerospike_key_get A (as_cfg x) (as_key_init ns s k) w")
  have "list_all (\<lambda>(n, v). terminated v) (bins rec)"
    using assms get unfolding gets_terminated_def by (metis fst_conv snd_conv)
  then obtain j where "data_convert_to_json_v1 J Z (\<lambda>n. True) (bins rec) obj = Inr j"
    using convert_no_fault [of "bins rec" J Z obj] by blast
  with get show ?thesis by (auto simp: GET_def Let_def)
qed

lemma handle_request_total:
  assumes "no_failures L"
  shows "\<exists>res. handle_request L t r rep ka s = Inr res"
proof -
  obtain c w where s: "s = (c, w)" by (cases s)
  obtain tv0 w0 where clk: "lib_clock L w = (tv0, w0)" by fastforce
  obtain u params where sp: "split_uri (lib_boost L) (uri r) = (u, params)" by fastforce
  have "\<exists>res. handle_get L t params base c w0 = Inr res" for base
  proof -
    obtain c1 w1 where g: "GetAsObject (lib_as L) t c w0 = (c1, w1)" by fastforce
    show ?thesis
    proof (cases "rAsList c1 t")
      case None
      with g show ?thesis by (simp add: handle_get_def)
    next
      case (Some x)
      obtain res where "GET (lib_as L) (lib_json L) (lib_zlib L) (\<lambda>n. True) x (map_get params ''ns'' [])
          (map_get params ''set'' []) (map_get params ''key'' []) (json_object (lib_json L)) 0 0 w1 = Inr res"
        using GET_total [of "lib_as L" "lib_json L" "lib_zlib L" x] assms unfolding no_failures_def by blast
      with g Some assms show ?thesis by (cases res) (simp add: handle_get_def no_failures_def Let_def)
    qed
  qed
  then obtain base c1 w1 where api: "handle_api L t (to_lower_copy (lib_boost L) u) params c w0 = Inr (base, c1, w1)"
    by (fastforce simp: handle_api_def Let_def)
  obtain tv1 w2 where "lib_clock L w1 = (tv1, w2)" by fastforce
  moreover have "\<exists>rep'. build_reply L b rep ka = Inr rep'" for b
    using assms by (auto simp: build_reply_def no_failures_def Let_def split: option.split)
  ultimately show ?thesis
    using s clk sp api by (auto simp: handle_request_def Let_def split: sum.split) (metis Inr_Inl_False)+
qed

lemma handle_read_fault:
  assumes "handle_read B H fail bytes time conn s = Inl e"
  shows "parse (conn_parser conn) (conn_request conn) bytes = Inl e \<or> (\<exists>r rep ka. H r rep ka s = Inl e)"
  using assms
  by (auto simp: handle_read_def Let_def split: if_splits option.splits bool.splits sum.splits prod.splits)

lemma conn_event_fault:
  assumes "no_failures L" and "conn_inv conn" and "conn_event B (handle_request L t) ev conn s = Inl e"
  shows "e \<in> {Signed_overflow, Uninitialised_read}"
proof (cases ev)
  case (Read_done fail bytes time)
  then have h: "handle_read B (handle_request L t) fail bytes time conn s = Inl e" "pending conn = Pending_read"
    using assms(3) by (auto split: if_splits)
  then have inv: "parser_inv (conn_parser conn) (conn_request conn)" using assms(2) by (simp add: conn_inv_def)
  have "handle_request L t r rep ka s \<noteq> Inl e" for r rep ka
    using handle_request_total [OF assms(1), of t r rep ka s] by auto
  then have "parse (conn_parser conn) (conn_request conn) bytes = Inl e"
    using handle_read_fault [OF h(1)] by blast
  then show ?thesis using parse_ub [OF inv] by blast
next
  case (Write_done fail)
  then show ?thesis
    using assms(3) by (auto simp: handle_write_def split: if_splits sum.splits option.splits)
qed

lemma proxy_run_fault:
  assumes "no_failures L"
  shows "proxy_inv p \<Longrightarrow> proxy_run L as p w = Inl e \<Longrightarrow> e \<in> {Signed_overflow, Uninitialised_read}"
proof (induction as arbitrary: p w)
  case Nil
  then show ?case by simp
next
  case (Cons a as)
  show ?case
  proof (cases "proxy_act L a p w")
    case (Inr res)
    then obtain p1 w1 where a: "proxy_act L a p w = Inr (p1, w1)" by (cases res) auto
    show ?thesis
      by (rule Cons.IH [OF proxy_inv_act [OF Cons.prems(1) a]]) (use Cons.prems(2) a in simp)
  next
    case (Inl e')
    then obtain t i ev conn where conn: "conns p i = Some conn"
      and ev: "conn_event (lib_boost L) (handle_request L t) ev conn (asOP (srv p), w) = Inl e'"
      by (cases a) (auto split: if_splits option.splits sum.splits prod.splits)
    have "conn_inv conn" using Cons.prems(1) conn unfolding proxy_inv_def by blast
    moreover have "e = e'" using Cons.prems(2) Inl by simp
    ultimately show ?thesis using conn_event_fault [OF assms _ ev] by simp
  qed
qed

end
