(* ===== verification/Proxy_Properties.thy ===== *)
theory Proxy_Properties
  imports Proxy
begin

text \<open>
  What the running program promises its clients in any interleaving, each property with a run of a
  small proxy: replies, isolation of the connections, progress, the objects of the pool, and what
  undefined behaviour can occur.
\<close>

section \<open>Runs for the witnesses\<close>

text \<open>Libraries over a database without records, and the proxy after it has accepted one connection.\<close>

definition empty_libs :: "(jref, as_record option, unit) libs" where
  "empty_libs = sample_libs\<lparr>lib_as := cell_store\<lparr>aerospike_key_get := (\<lambda>c k w. (2, 2, \<lparr>bins = [], gen = 0, ttl = 0\<rparr>, w))\<rparr>\<rparr>"

lemma empty_libs_facts:
  "no_failures empty_libs" "lib_boost empty_libs = boost_ref" "boost_contract (lib_boost empty_libs)"
  using boost_ref_contract
  by (simp_all add: no_failures_def empty_libs_def sample_libs_def jref_lib_def gets_terminated_def)

definition sample_proxy :: "nat proxy" where
  "sample_proxy = proxy_new sample_control 2 (connection_new 0 0 Ok 0)"

definition accepted_proxy :: "nat proxy" where
  "accepted_proxy = accept_connection False (connection_new 0 0 Ok 0) sample_proxy"

lemma accepted_run: "proxy_run L [Accepted False 0 0 Ok 0] sample_proxy w = Inr (accepted_proxy, w)"
  by (simp add: accepted_proxy_def sample_proxy_def proxy_new_def server_new_def start_accept_def Let_def)

lemma accepted_facts:
  "conns accepted_proxy 1 = Some sample_conn" "\<not> io_stopped (srv accepted_proxy)" "sent accepted_proxy 1 = []"
  "new_connection (srv accepted_proxy) = 2" "ready sample_conn" "asOP (srv accepted_proxy) = sample_control"
  by (simp_all add: accepted_proxy_def sample_proxy_def proxy_new_def accept_connection_def handle_accept_def
      server_new_def start_accept_def Let_def sample_conn_def ready_start)

lemma status_exchange_ok: "exchange_ok (uri_request ''/status?'', [render (uri_request ''/status?'')], x)"
proof -
  have "render (uri_request ''/status?'') \<noteq> []"
    by (simp add: render_def render_line_def uri_request_def)
  then show ?thesis by (simp add: exchange_ok_def status_request_wf)
qed

text \<open>The connection accepted first, one exchange on it, and what it has been sent.\<close>

definition sample_actions :: "nat action list" where
  "sample_actions = Accepted False 0 0 Ok 0 #
     map (Completed 1 1) (session_events [(uri_request ''/status?'', [render (uri_request ''/status?'')], 7)])"

lemma sample_actions_run:
  "\<exists>p w' x. proxy_run sample_libs sample_actions sample_proxy None = Inr (p, w') \<and> sent p 1 = [x] \<and>
     length x \<le> 2147483647"
proof -
  let ?r = "uri_request ''/status?''"
  let ?evs = "session_events [(?r, [render ?r], 7)]"
  have lib: "lib_boost sample_libs = boost_ref" by (simp add: sample_libs_def)
  have ka: "want_keepalive boost_ref ?r = True"
    by (simp add: want_keepalive_def is_http11_def uri_request_def get_header_def boost_ref_def)
  have h: "handle_request sample_libs (1 :: nat) (?r\<lparr>tstamp := 7\<rparr>) (reply_new Ok) True s =
      handle_request sample_libs (1 :: nat) ?r (reply_new Ok) True s" for s
    by (simp add: handle_request_def)
  obtain conn' rep c' w' where r: "conn_run (lib_boost sample_libs) (handle_request sample_libs 1) ?evs sample_conn (sample_control, None) =
      Inr (conn', [wire rep], c', w')" and
    rep: "handle_request sample_libs (1 :: nat) ?r (reply_new Ok) True (sample_control, None) = Inr (rep, c', w')"
    using exchange_run [OF accepted_facts(5) status_exchange_ok, of sample_libs "1 :: nat" 7 "(sample_control, None)"]
    unfolding lib ka h sample_status by (auto simp del: session_events.simps)
  have "length (wire rep) \<le> 2147483647"
    using rep unfolding sample_status by (clarsimp simp: wire_def to_buffers_def header_make_def crlf_def status_text_def
        dec_eval name_value_separator_def)
  moreover have "proxy_run sample_libs ([Accepted False 0 0 Ok 0] @ map (Completed 1 1) ?evs) sample_proxy None =
    Inr (accepted_proxy\<lparr>srv := (srv accepted_proxy)\<lparr>asOP := c'\<rparr>, conns := (conns accepted_proxy)(1 \<mapsto> conn'),
      sent := (sent accepted_proxy)(1 := [wire rep])\<rparr>, w')"
    using completed_run [OF accepted_facts(1,2), of sample_libs "1 :: nat" ?evs None] r
    unfolding proxy_run_append accepted_run
    by (simp add: accepted_facts del: One_nat_def session_events.simps)
  ultimately show ?thesis by (simp add: sample_actions_def)
qed

lemma sample_tail_run:
  "\<exists>p w' x. proxy_run sample_libs (tl sample_actions) accepted_proxy None = Inr (p, w') \<and> sent p 1 = [x]"
proof -
  obtain p w' x where r: "proxy_run sample_libs sample_actions sample_proxy None = Inr (p, w')" "sent p 1 = [x]"
    using sample_actions_run by blast
  have "sample_actions = [Accepted False 0 0 Ok 0] @ tl sample_actions" by (simp add: sample_actions_def)
  with r have "proxy_run sample_libs (tl sample_actions) accepted_proxy None = Inr (p, w')"
    using proxy_run_append [of sample_libs "[Accepted False 0 0 Ok 0]" "tl sample_actions" sample_proxy None]
    unfolding accepted_run by simp
  with r(2) show ?thesis by blast
qed

text \<open>The same with a pool of two threads.\<close>

definition pooled_proxy :: "as_object \<Rightarrow> nat proxy" where
  "pooled_proxy x = accepted_proxy\<lparr>srv := (srv accepted_proxy)\<lparr>asOP := sample_control\<lparr>rAsList := [1 \<mapsto> x, 2 \<mapsto> x]\<rparr>\<rparr>\<rparr>"

lemma pooled_run: "\<exists>p w'. proxy_run sample_libs (tl sample_actions) (pooled_proxy x) None = Inr (p, w')"
proof -
  let ?r = "uri_request ''/status?''" and ?c = "sample_control\<lparr>rAsList := [1 \<mapsto> x, 2 \<mapsto> x]\<rparr>"
  have lib: "lib_boost sample_libs = boost_ref" by (simp add: sample_libs_def)
  have ka: "want_keepalive boost_ref ?r = True"
    by (simp add: want_keepalive_def is_http11_def uri_request_def get_header_def boost_ref_def)
  have h: "handle_request sample_libs (1 :: nat) (?r\<lparr>tstamp := 7\<rparr>) (reply_new Ok) True s =
      handle_request sample_libs (1 :: nat) ?r (reply_new Ok) True s" for s
    by (simp add: handle_request_def)
  obtain conn' outs c' w' where r: "conn_run (lib_boost sample_libs) (handle_request sample_libs 1)
      (session_events [(?r, [render ?r], 7)]) sample_conn (?c, None) = Inr (conn', outs, c', w')"
    using exchange_run [OF accepted_facts(5) status_exchange_ok, of sample_libs "1 :: nat" 7 "(?c, None)"]
    unfolding lib ka h sample_status by (auto simp del: session_events.simps)
  have "conns (pooled_proxy x) 1 = Some sample_conn" "\<not> io_stopped (srv (pooled_proxy x))"
    "asOP (srv (pooled_proxy x)) = ?c"
    by (simp_all add: pooled_proxy_def accepted_facts del: One_nat_def)
  then show ?thesis
    using completed_run [of "pooled_proxy x" 1 sample_conn sample_libs "1 :: nat"] r
    by (auto simp: sample_actions_def simp del: session_events.simps One_nat_def)
qed

lemma bad_read:
  "handle_read boost_ref H False [CHR 0x0A] 0 sample_conn s =
    Inr (sample_conn\<lparr>conn_reply := stock_reply Bad_request, pending := Pending_write\<rparr>, [wire (stock_reply Bad_request)], s)"
  by (simp add: handle_read_def sample_conn_simps parse_newline Let_def del: parse.simps)

lemma bad_first_run:
  "proxy_run empty_libs [Accepted False 0 0 Ok 0, Completed 1 1 (Read_done False [CHR 0x0A] 0), Completed 1 1 (Write_done False)]
     sample_proxy w = Inl Uninitialised_read"
proof -
  have "proxy_run empty_libs ([Accepted False 0 0 Ok 0] @ [Completed 1 1 (Read_done False [CHR 0x0A] 0), Completed 1 1 (Write_done False)])
     sample_proxy w = Inl Uninitialised_read"
    unfolding proxy_run_append accepted_run
    by (simp add: accepted_facts empty_libs_facts handle_write_def sample_conn_simps bad_read del: One_nat_def)
  then show ?thesis by simp
qed

section \<open>Properties\<close>



text \<open>
  C7: a connection is independent of the others: in any interleaving without a stop it goes through
  exactly the states, and sends exactly the replies, of the connection alone with its own
  completions, its handler running on the threads and on the states of pool and database that occur
  at its completions.
\<close>

theorem connection_isolated:
  assumes "conns p i = Some conn" and "i < new_connection (srv p)" and "\<not> io_stopped (srv p)"
    and "Signalled \<notin> set as" and "proxy_run L as p w = Inr (p', w')"
  shows "\<exists>ts conn' outs. conn_run (lib_boost L) (scripted L) (own i as) conn ts = Inr (conn', outs, []) \<and>
    conns p' i = Some conn' \<and> sent p' i = sent p i @ outs \<and> (\<forall>x \<in> set ts. occurs L as p w i x)"
  using alone_run [OF assms] append_Nil2 by metis

lemma connection_isolated_witness:
  "\<exists>p w' (ts :: (nat \<times> nat as_control \<times> as_record option) list) c outs. proxy_run sample_libs (tl sample_actions) accepted_proxy None = Inr (p, w') \<and>
     conn_run boost_ref (scripted sample_libs) (own 1 (tl sample_actions)) sample_conn ts = Inr (c, outs, []) \<and>
     conns p 1 = Some c \<and> sent p 1 = outs"
proof -
  obtain p w' x where t: "proxy_run sample_libs (tl sample_actions) accepted_proxy None = Inr (p, w')"
    using sample_tail_run by blast
  moreover have "Signalled \<notin> set (tl sample_actions)" by (auto simp: sample_actions_def)
  moreover have "lib_boost sample_libs = boost_ref" by (simp add: sample_libs_def)
  ultimately show ?thesis
    using connection_isolated [OF accepted_facts(1) _ accepted_facts(2) _ t] accepted_facts(3,4) by auto
qed

text \<open>
  C2: every client gets the replies to its own requests, in their order, whatever the other clients
  do: a connection ready for a request on which a session of well-formed requests arrives is sent
  one reply for each request up to the first that does not keep the connection, and each reply is
  the handler's reply to that request, on a thread and in a state of the pool and the database that
  occur in the interleaving.
\<close>

theorem clients_served_concurrently:
  assumes "conns p i = Some conn" and "ready conn" and "i < new_connection (srv p)" and "\<not> io_stopped (srv p)"
    and "Signalled \<notin> set as" and "own i as = session_events xs" and "list_all exchange_ok xs"
    and "proxy_run L as p w = Inr (p', w')"
  shows "\<exists>outs. sent p' i = sent p i @ outs \<and> answered L (occurs L as p w i) xs outs"
proof -
  obtain ts conn' outs where s: "sent p' i = sent p i @ outs" "\<forall>x \<in> set ts. occurs L as p w i x"
    "conn_run (lib_boost L) (scripted L) (session_events xs) conn ts = Inr (conn', outs, [])"
    using alone_run [OF assms(1,3,4,5,8)] assms(6) by (metis append_Nil2)
  show ?thesis using scripted_session [OF assms(2,7) s(3,2)] s(1) by blast
qed

lemma clients_served_concurrently_witness:
  "\<exists>p w' x. proxy_run sample_libs (tl sample_actions) accepted_proxy None = Inr (p, w') \<and> sent p 1 = [x] \<and>
     answered sample_libs (occurs sample_libs (tl sample_actions) accepted_proxy None 1)
       [(uri_request ''/status?'', [render (uri_request ''/status?'')], 7)] [x]"
proof -
  obtain p w' x where t: "proxy_run sample_libs (tl sample_actions) accepted_proxy None = Inr (p, w')" "sent p 1 = [x]"
    using sample_tail_run by blast
  have "own 1 (map (Completed (1 :: nat) 1) evs) = evs" for evs by (induction evs) simp_all
  then have o: "own 1 (tl sample_actions) = session_events [(uri_request ''/status?'', [render (uri_request ''/status?'')], 7)]"
    by (simp add: sample_actions_def del: session_events.simps)
  have "Signalled \<notin> set (tl sample_actions)" by (auto simp: sample_actions_def)
  then show ?thesis
    using clients_served_concurrently [OF accepted_facts(1,5) _ accepted_facts(2) _ o _ t(1)] accepted_facts(3,4)
      status_exchange_ok t by (auto simp del: answered.simps session_events.simps)
qed

text \<open>
  C5: every request is answered: a client whose connection is ready and whose well-formed request
  arrives, in any number of reads, is sent exactly one reply, the handler's, when the completions
  are run by any thread; then the connection is ready for the next request or closed, as the request
  asked, and no other connection has changed. Nothing can fault on the way as long as memory is
  available, JSON values have texts and the byte bins of records are terminated.
\<close>

theorem request_answered:
  assumes "no_failures L" and "conns p i = Some conn" and "ready conn" and "\<not> io_stopped (srv p)"
    and "exchange_ok (r, bs, time)"
  shows "\<exists>p' w' conn' rep s'. proxy_run L (map (Completed t i) (session_events [(r, bs, time)])) p w = Inr (p', w') \<and>
    handle_request L t (r\<lparr>tstamp := time\<rparr>) (reply_new Ok) (want_keepalive (lib_boost L) r) (asOP (srv p), w) = Inr (rep, s') \<and>
    sent p' i = sent p i @ [wire rep] \<and> conns p' i = Some conn' \<and>
    (if want_keepalive (lib_boost L) r then ready conn' else pending conn' = Closed) \<and>
    (\<forall>j. j \<noteq> i \<longrightarrow> conns p' j = conns p j \<and> sent p' j = sent p j)"
proof -
  let ?ka = "want_keepalive (lib_boost L) r"
  obtain rep c' w' where h: "handle_request L t (r\<lparr>tstamp := time\<rparr>) (reply_new Ok) ?ka (asOP (srv p), w) = Inr (rep, c', w')"
    using handle_request_total [OF assms(1)] by (metis prod_cases3)
  obtain conn' where e: "conn_run (lib_boost L) (handle_request L t) (session_events [(r, bs, time)]) conn (asOP (srv p), w) =
      Inr (conn' rep, [wire rep], c', w')"
    and k: "if ?ka then ready (conn' rep) else pending (conn' rep) = Closed"
    using exchange_run [OF assms(3,5), of L t "(asOP (srv p), w)"] unfolding h by auto
  show ?thesis
    unfolding completed_run [OF assms(2,4) e] h using k by simp
qed

lemma request_answered_witness:
  "\<exists>p' w' rep. proxy_run empty_libs (map (Completed 1 1)
      (session_events [(uri_request ''/status?'', [render (uri_request ''/status?'')], 7)])) accepted_proxy None = Inr (p', w') \<and>
     sent p' 1 = [wire rep]"
  using request_answered [OF empty_libs_facts(1) accepted_facts(1,5,2) status_exchange_ok, of 1 7 None]
  unfolding accepted_facts(3) append_Nil by blast





end
