(* ===== verification/Concurrent_Get.thy ===== *)
theory Concurrent_Get
  imports Proxy_Properties
begin

text \<open>
  The program's purpose from end to end: while the database keeps a record and can be reached, every
  client that asks for the record gets it, whatever the other clients, the health check and the
  threads do. \<open>I\<close> is a property of the state of the database and the clock that every call the program
  makes keeps, and that gives the record to a read of its key; what else is stored may change.
\<close>

definition keeps_record ::
  "('j, 'w, 'z) libs \<Rightarrow> ('w \<Rightarrow> bool) \<Rightarrow> as_key \<Rightarrow> (string \<times> as_val) list \<Rightarrow> bool" where
  "keeps_record L I key bs \<longleftrightarrow>
     (\<forall>w cfg k. I w \<longrightarrow> I (snd (snd (snd (aerospike_key_get (lib_as L) cfg k w))))) \<and>
     (\<forall>w cfg. I w \<longrightarrow> I (snd (snd (aerospike_connect (lib_as L) cfg w))) \<and>
        fst (aerospike_connect (lib_as L) cfg w) = AEROSPIKE_OK (lib_as L)) \<and>
     (\<forall>w xs. I w \<longrightarrow> I (snd (random_shuffle (lib_as L) xs w))) \<and>
     (\<forall>w. I w \<longrightarrow> I (snd (lib_clock L w))) \<and>
     (\<forall>w cfg. I w \<longrightarrow> (\<exists>err rec w'. aerospike_key_get (lib_as L) cfg key w = (AEROSPIKE_OK (lib_as L), err, rec, w') \<and>
        bins rec = bs))"

lemma keeps_recordD:
  assumes "keeps_record L I key bs" and "I w"
  shows "aerospike_key_get (lib_as L) cfg k w = (st, er, rec, w') \<Longrightarrow> I w'"
    and "aerospike_connect (lib_as L) cfg w = (st, er, w') \<Longrightarrow> I w' \<and> st = AEROSPIKE_OK (lib_as L)"
    and "random_shuffle (lib_as L) xs w = (ys, w') \<Longrightarrow> I w'"
    and "lib_clock L w = (tv, w') \<Longrightarrow> I w'"
    and "\<exists>er rec w'. aerospike_key_get (lib_as L) cfg key w = (AEROSPIKE_OK (lib_as L), er, rec, w') \<and> bins rec = bs"
  using assms unfolding keeps_record_def by (metis fst_conv snd_conv)+

definition alive_pool :: "'t as_control \<Rightarrow> bool" where
  "alive_pool c \<longleftrightarrow> (\<forall>t x. rAsList c t = Some x \<longrightarrow> isalive x)"

definition healthy :: "('w \<Rightarrow> bool) \<Rightarrow> 't as_control \<Rightarrow> 'w \<Rightarrow> bool" where
  "healthy I c w \<longleftrightarrow> I w \<and> alive_pool c"

section \<open>Every step keeps the pool alive and the record\<close>

lemma GET_keeps:
  assumes "keeps_record L I key bs" and "I w"
    and "GET (lib_as L) J Z realloc x ns st k obj t g w = Inr (ret, x', j, t', g', w')"
  shows "I w'" and "isalive x' = isalive x"
proof -
  obtain s err rec w1 where get: "aerospike_key_get (lib_as L) (as_cfg x) (as_key_init ns st k) w = (s, err, rec, w1)"
    by (cases "aerospike_key_get (lib_as L) (as_cfg x) (as_key_init ns st k) w")
  have "I w1" by (rule keeps_recordD(1) [OF assms(1,2) get])
  then show "I w'" and "isalive x' = isalive x"
    using assms(2,3) get by (auto simp: GET_def Let_def split: if_splits sum.splits)
qed

lemma GetAsObject_keeps:
  assumes "keeps_record L I key bs" and "healthy I c w" and "GetAsObject (lib_as L) t c w = (c', w')"
  shows "healthy I c' w'"
proof (cases "rAsList c t")
  case None
  obtain ys w1 where sh: "random_shuffle (lib_as L) (as_server_list c) w = (ys, w1)" by fastforce
  have w1: "I w1" using keeps_recordD(3) [OF assms(1) _ sh] assms(2) by (simp add: healthy_def)
  let ?cfg = "object_config (lib_as L) ys (port c) (word_of_int (timeout c))"
  obtain st err w2 where co: "aerospike_connect (lib_as L) ?cfg w1 = (st, err, w2)"
    by (cases "aerospike_connect (lib_as L) ?cfg w1")
  have "I w2 \<and> st = AEROSPIKE_OK (lib_as L)" by (rule keeps_recordD(2) [OF assms(1) w1 co])
  then show ?thesis
    using assms(2,3) None sh co
    by (auto simp: GetAsObject_def insert_object_def AS_OBJECT_new_def healthy_def alive_pool_def Let_def split: if_splits)
next
  case (Some x)
  then show ?thesis using assms(2,3) by (simp add: GetAsObject_def)
qed

lemma handle_get_keeps:
  assumes "keeps_record L I key bs" and "healthy I c w" and "handle_get L t params base c w = Inr (j, c', w')"
  shows "healthy I c' w'"
proof -
  obtain c1 w1 where g: "GetAsObject (lib_as L) t c w = (c1, w1)" by fastforce
  have h: "healthy I c1 w1" by (rule GetAsObject_keeps [OF assms(1,2) g])
  show ?thesis
  proof (cases "rAsList c1 t")
    case None
    then show ?thesis using assms(3) g h by (simp add: handle_get_def)
  next
    case (Some x)
    obtain ret x' res t' g' where G: "GET (lib_as L) (lib_json L) (lib_zlib L) (lib_realloc L) x (map_get params ''ns'' [])
        (map_get params ''set'' []) (map_get params ''key'' []) (json_object (lib_json L)) 0 0 w1 = Inr (ret, x', res, t', g', w')"
      and c': "c' = c1\<lparr>rAsList := (rAsList c1)(t \<mapsto> x')\<rparr>"
      using assms(3) g Some by (auto simp: handle_get_def Let_def split: sum.splits)
    have "I w'" "isalive x'"
      using GET_keeps [OF assms(1) _ G] h Some by (auto simp: healthy_def alive_pool_def)
    then show ?thesis using h by (auto simp: c' healthy_def alive_pool_def)
  qed
qed

lemma handle_request_keeps:
  assumes "keeps_record L I key bs" and "healthy I c w" and "handle_request L t r rep ka (c, w) = Inr (rep', c', w')"
  shows "healthy I c' w'"
proof -
  obtain tv0 w0 where clk: "lib_clock L w = (tv0, w0)" by fastforce
  obtain u params where sp: "split_uri (lib_boost L) (uri r) = (u, params)" by fastforce
  obtain base w1 where api: "handle_api L t (to_lower_copy (lib_boost L) u) params c w0 = Inr (base, c', w1)"
    and w': "w' = snd (lib_clock L w1)"
    using assms(3) clk sp by (auto simp: handle_request_def Let_def split: sum.splits prod.splits)
  have "healthy I c w0" using keeps_recordD(4) [OF assms(1) _ clk] assms(2) by (simp add: healthy_def)
  then have "healthy I c' w1"
    using api handle_get_keeps [OF assms(1)] by (auto simp: handle_api_def Let_def split: if_splits)
  then show ?thesis
    using keeps_recordD(4) [OF assms(1), of w1 "fst (lib_clock L w1)" w'] by (simp add: healthy_def w')
qed

lemma STATUS_keeps:
  assumes "keeps_record L I key bs" and "I w" and "isalive x" and "AS_OBJECT_STATUS (lib_as L) x w = (ok, x', w')"
  shows "I w' \<and> isalive x'"
proof -
  obtain s er rec w1 where get: "aerospike_key_get (lib_as L) (as_cfg x) (as_key_init ''ns'' ''set'' ''key'') w = (s, er, rec, w1)"
    by (cases "aerospike_key_get (lib_as L) (as_cfg x) (as_key_init ''ns'' ''set'' ''key'') w")
  have "I w1" by (rule keeps_recordD(1) [OF assms(1,2) get])
  then show ?thesis using assms(3,4) get by (auto simp: AS_OBJECT_STATUS_def Let_def split: if_splits)
qed

lemma RECONNECT_keeps:
  assumes "keeps_record L I key bs" and "I w" and "AS_OBJECT_RECONNECT (lib_as L) x w = (x', w')"
  shows "I w' \<and> isalive x'"
proof -
  obtain s er w1 where co: "aerospike_connect (lib_as L) (as_cfg x) w = (s, er, w1)"
    by (cases "aerospike_connect (lib_as L) (as_cfg x) w")
  have "I w1 \<and> s = AEROSPIKE_OK (lib_as L)" by (rule keeps_recordD(2) [OF assms(1,2) co])
  then show ?thesis using assms(3) co by (auto simp: AS_OBJECT_RECONNECT_def Let_def)
qed

lemma sweep_keeps:
  assumes "keeps_record L I key bs"
  shows "I w \<Longrightarrow> (\<forall>t x. m t = Some x \<longrightarrow> isalive x) \<Longrightarrow>
    sweep (AS_OBJECT_STATUS (lib_as L)) (AS_OBJECT_RECONNECT (lib_as L)) order m w = (m', w') \<Longrightarrow>
    I w' \<and> (\<forall>t x. m' t = Some x \<longrightarrow> isalive x)"
proof (induction order arbitrary: m w)
  case Nil
  then show ?case by simp
next
  case (Cons t ts)
  show ?case
  proof (cases "m t")
    case None
    then show ?thesis using Cons by simp
  next
    case (Some x)
    obtain ok x1 w1 where st: "AS_OBJECT_STATUS (lib_as L) x w = (ok, x1, w1)" by (cases "AS_OBJECT_STATUS (lib_as L) x w")
    have 1: "I w1" "isalive x1"
      using STATUS_keeps [OF assms Cons.prems(1) _ st] Cons.prems(2) Some by blast+
    obtain x2 w2 where x2: "(if \<not> ok then AS_OBJECT_RECONNECT (lib_as L) x1 w1 else (x1, w1)) = (x2, w2)" by fastforce
    have 2: "I w2 \<and> isalive x2"
    proof (cases ok)
      case True
      then show ?thesis using 1 x2 by simp
    next
      case False
      then show ?thesis using x2 by (intro RECONNECT_keeps [OF assms 1(1), of x1]) simp
    qed
    have "sweep (AS_OBJECT_STATUS (lib_as L)) (AS_OBJECT_RECONNECT (lib_as L)) ts (m(t \<mapsto> x2)) w2 = (m', w')"
      using Cons.prems(3) Some st x2 by simp
    then show ?thesis
      by (rule Cons.IH [rotated 2]) (use 2 Cons.prems(2) in \<open>simp_all split: if_splits\<close>)
  qed
qed

lemma proxy_act_keeps:
  assumes "keeps_record L I key bs" and "healthy I (asOP (srv p)) w" and "proxy_act L a p w = Inr (p', w')"
  shows "healthy I (asOP (srv p')) w'"
proof (cases a)
  case (Accepted e x y st n)
  with assms show ?thesis
    by (auto simp: accept_connection_def handle_accept_def start_accept_def Let_def split: if_splits)
next
  case (Completed t i ev)
  show ?thesis
  proof (cases "conns p i = None \<or> io_stopped (srv p)")
    case True
    with assms Completed show ?thesis by (auto split: option.splits)
  next
    case False
    then obtain conn conn' out c' where ev: "conn_event (lib_boost L) (handle_request L t) ev conn (asOP (srv p), w) =
        Inr (conn', out, c', w')" and p': "asOP (srv p') = c'"
      using assms(3) Completed by (auto split: sum.splits)
    have "(c', w') = (asOP (srv p), w) \<or>
        (\<exists>r rep ka rep'. handle_request L t r rep ka (asOP (srv p), w) = Inr (rep', c', w'))"
      using ev by (cases ev) (auto split: if_splits sum.splits elim!: handle_read_cases)
    then show ?thesis using assms(2) handle_request_keeps [OF assms(1,2)] p' by auto
  qed
next
  case (Tick order)
  obtain c1 w1 where c: "CheckAsServersStatus (lib_as L) order (asOP (srv p)) w = (c1, w1)" by fastforce
  obtain m where m: "sweep (AS_OBJECT_STATUS (lib_as L)) (AS_OBJECT_RECONNECT (lib_as L)) order (rAsList (asOP (srv p))) w = (m, w1)"
    and c1: "c1 = (asOP (srv p))\<lparr>rAsList := m\<rparr>"
    using c by (auto simp: CheckAsServersStatus_def split: prod.splits)
  have "healthy I c1 w1"
    using sweep_keeps [OF assms(1) _ _ m] assms(2) by (simp add: healthy_def alive_pool_def c1)
  then show ?thesis using Tick c assms(2,3) by (auto simp: handle_timer_def split: if_splits)
next
  case Signalled
  with assms show ?thesis by (auto simp: handle_stop_def split: if_splits)
qed

lemma proxy_run_keeps:
  assumes "keeps_record L I key bs"
  shows "healthy I (asOP (srv p)) w \<Longrightarrow> proxy_run L as p w = Inr (p', w') \<Longrightarrow> healthy I (asOP (srv p')) w'"
proof (induction as arbitrary: p w)
  case Nil
  then show ?case by simp
next
  case (Cons a as)
  then show ?case by (auto split: sum.splits dest: proxy_act_keeps [OF assms])
qed

section \<open>What the handler answers in such a state\<close>

text \<open>A reply whose body is the text of an object with the members of \<open>res\<close> under \<open>results\<close>.\<close>

definition delivers :: "('j, 'w, 'z) libs \<Rightarrow> 'j \<Rightarrow> string \<Rightarrow> bool" where
  "delivers L res out \<longleftrightarrow>
     (\<exists>rep base took dump. out = wire rep \<and> rep_content rep = c_str dump \<and>
        json_dumps (lib_json L) base dump_flags = Some dump \<and>
        json_object_items (lib_json L) base = [(''results'', res), (''took'', took)])"

text \<open>How many replies a session gets: up to the first request that does not keep the connection.\<close>

fun replies_due :: "boost \<Rightarrow> exchange list \<Rightarrow> nat" where
  "replies_due B [] = 0"
| "replies_due B ((r, bs, time) # xs) = (if want_keepalive B r then Suc (replies_due B xs) else 1)"

definition libs_ok :: "('j, 'w, 'z) libs \<Rightarrow> bool" where
  "libs_ok L \<longleftrightarrow>
     boost_contract (lib_boost L) \<and> jansson_contract (lib_json L) \<and>
     (\<forall>j. json_dumps (lib_json L) j dump_flags \<noteq> None) \<and> (\<forall>q. json_real (lib_json L) q \<noteq> None)"

definition asks_for :: "string \<Rightarrow> string \<Rightarrow> string \<Rightarrow> request \<Rightarrow> bool" where
  "asks_for ns st k r \<longleftrightarrow>
     (\<exists>api. plain_path api \<and> map tolower api = ''/get'' \<and> uri r = request_uri api [(''ns'', ns), (''set'', st), (''key'', k)])"

lemma healthy_delivers:
  assumes "libs_ok L" and "keeps_record L I (as_key_init ns st k) bs"
    and "data_convert_to_json_v1 (lib_json L) (lib_zlib L) (lib_realloc L) bs (json_object (lib_json L)) = Inr res"
    and "json_object_items (lib_json L) res \<noteq> []" and "CHR ''&'' \<notin> set ns \<union> set st \<union> set k" and "asks_for ns st k r"
    and "healthy I c w" and "t \<in> dom (rAsList c)"
    and "handle_request L t (r\<lparr>tstamp := time\<rparr>) (reply_new Ok) ka (c, w) = Inr (rep, s')"
  shows "delivers L res (wire rep)"
proof -
  obtain tv0 w0 where clk: "lib_clock L w = (tv0, w0)" by fastforce
  have w0: "I w0" using keeps_recordD(4) [OF assms(2) _ clk] assms(7) by (simp add: healthy_def)
  obtain y where y: "rAsList c t = Some y" "isalive y"
    using assms(7,8) by (auto simp: healthy_def alive_pool_def)
  obtain er rec w1 where get: "aerospike_key_get (lib_as L) (as_cfg y) (as_key_init ns st k) w0 =
      (AEROSPIKE_OK (lib_as L), er, rec, w1)" and bs: "bins rec = bs"
    using keeps_recordD(5) [OF assms(2) w0] by blast
  have G: "GET (lib_as L) (lib_json L) (lib_zlib L) (lib_realloc L) y ns st k (json_object (lib_json L)) 0 0 w0 =
      Inr (AEROSPIKE_OK (lib_as L), y\<lparr>as_err := er\<rparr>, res, ttl rec, gen rec, w1)"
    using y(2) get bs assms(3) by (simp add: GET_def)
  obtain api where api: "plain_path api" "map tolower api = ''/get''"
    "uri (r\<lparr>tstamp := time\<rparr>) = request_uri api [(''ns'', ns), (''set'', st), (''key'', k)]"
    using assms(6) by (auto simp: asks_for_def)
  obtain rep2 s2 base took dump where h: "handle_request L t (r\<lparr>tstamp := time\<rparr>) (reply_new Ok) ka (c, w) = Inr (rep2, s2)"
    "json_object_items (lib_json L) base = [(''results'', res), (''took'', took)]"
    "json_dumps (lib_json L) base dump_flags = Some dump" "rep_content rep2 = rep_content (reply_new Ok) @ c_str dump"
    using get_request_reply [OF _ _ _ _ api(1,2) assms(5) api(3) clk y(1) G assms(4), of "reply_new Ok" ka] assms(1)
    unfolding libs_ok_def by blast
  then show ?thesis
    using assms(9) unfolding delivers_def by (auto simp: reply_new_def)
qed

lemma answered_delivers:
  assumes "answered L P xs outs"
    and "\<And>t s r bs time rep s'. P (t, s) \<Longrightarrow> (r, bs, time) \<in> set xs \<Longrightarrow>
      handle_request L t (r\<lparr>tstamp := time\<rparr>) (reply_new Ok) (want_keepalive (lib_boost L) r) s = Inr (rep, s') \<Longrightarrow> Q (wire rep)"
  shows "length outs = replies_due (lib_boost L) xs \<and> (\<forall>out \<in> set outs. Q out)"
  using assms
proof (induction xs arbitrary: outs)
  case Nil
  then show ?case by simp
next
  case (Cons x xs)
  obtain r bs time where x: "x = (r, bs, time)" by (cases x)
  obtain t s rep s' outs' where o: "P (t, s)" "outs = wire rep # outs'"
    "handle_request L t (r\<lparr>tstamp := time\<rparr>) (reply_new Ok) (want_keepalive (lib_boost L) r) s = Inr (rep, s')"
    "if want_keepalive (lib_boost L) r then answered L P xs outs' else outs' = []"
    using Cons.prems(1) unfolding x answered.simps by blast
  have "Q (wire rep)" using Cons.prems(2) [of t s r bs time] o(1,3) by (simp add: x)
  moreover have "length outs' = replies_due (lib_boost L) xs \<and> (\<forall>out \<in> set outs'. Q out)" if "want_keepalive (lib_boost L) r"
  proof (rule Cons.IH)
    show "answered L P xs outs'" using o(4) that by simp
    show "Q (wire rep)" if "P (t, s)" "(r, bs, time) \<in> set xs"
      "handle_request L t (r\<lparr>tstamp := time\<rparr>) (reply_new Ok) (want_keepalive (lib_boost L) r) s = Inr (rep, s')"
      for t s r bs time rep s'
      by (rule Cons.prems(2) [where bs = bs, OF that(1) _ that(3)]) (use that(2) in simp)
  qed
  ultimately show ?case using o(2,4) by (simp add: x)
qed

section \<open>Properties\<close>


text \<open>For the witness: a stored record, a request for it, and the world that has the record.\<close>

definition sample_request :: request where
  "sample_request = uri_request (request_uri ''/GET'' [(''ns'', ''n''), (''set'', ''s''), (''key'', ''k'')])"

definition sample_record :: as_record where
  "sample_record = \<lparr>bins = [(''gender'', As_integer 1)], gen = 8, ttl = 60\<rparr>"

lemma sample_request_facts:
  "exchange_ok (sample_request, [render sample_request], time)" "asks_for ''n'' ''s'' ''k'' sample_request"
proof -
  have u: "request_uri ''/GET'' [(''ns'', ''n''), (''set'', ''s''), (''key'', ''k'')] = ''/GET?ns=n&set=s&key=k''"
    by (simp add: request_uri_def query_text_def query_pair_def url_encode_def enc_char_def isalnum_def isalpha_def
        islower_def isupper_def)
  have "wf_request sample_request"
    by (simp add: sample_request_def u wf_request_def uri_request_def line_ok_def version_ok_def content_length_def
        char_class get_header_def isupper_def islower_def isdigit_def)
  then show "exchange_ok (sample_request, [render sample_request], time)"
    by (simp add: exchange_ok_def render_def render_line_def sample_request_def uri_request_def)
  have "map tolower ''/GET'' = ''/get''" by (simp add: tolower_def isupper_def char_of_def bit_iff_odd)
  moreover have "plain_path ''/GET''" by (simp add: plain_path_def)
  ultimately show "asks_for ''n'' ''s'' ''k'' sample_request"
    unfolding asks_for_def by (intro exI [of _ "''/GET''"]) (simp add: sample_request_def uri_request_def)
qed

lemma sample_libs_facts:
  "libs_ok sample_libs" "lib_boost sample_libs = boost_ref" "lib_json sample_libs = jref_lib" "lib_as sample_libs = cell_store"
  "keeps_record sample_libs (\<lambda>w. w = Some sample_record) key (bins sample_record)"
  using boost_ref_contract jref_contract
  by (simp_all add: libs_ok_def sample_libs_def keeps_record_def cell_store_def, simp_all add: jref_lib_def)

lemma sample_get_run:
  "\<exists>p w'. proxy_run sample_libs (map (Completed 1 1) (session_events [(sample_request, [render sample_request], 7)]))
     (pooled_proxy sample_object) (Some sample_record) = Inr (p, w')"
proof -
  let ?c = "sample_control\<lparr>rAsList := [1 \<mapsto> sample_object, 2 \<mapsto> sample_object]\<rparr>"
  let ?evs = "session_events [(sample_request, [render sample_request], 7)]" and ?w = "Some sample_record"
  have "\<exists>x' t' g' w1. GET cell_store jref_lib (lib_zlib sample_libs) (lib_realloc sample_libs) sample_object ''n'' ''s'' ''k''
      (json_object jref_lib) 0 0 ?w = Inr (0, x', Obj [(''gender'', Num 1)], t', g', w1)"
    by (simp add: GET_def cell_store_def sample_object_def sample_record_def convert_bin_def jref_lib_def)
  then obtain x' t' g' w1 where G: "GET cell_store jref_lib (lib_zlib sample_libs) (lib_realloc sample_libs) sample_object
      ''n'' ''s'' ''k'' (json_object jref_lib) 0 0 ?w = Inr (0, x', Obj [(''gender'', Num 1)], t', g', w1)"
    by blast
  obtain api where api: "plain_path api" "map tolower api = ''/get''"
    "uri (sample_request\<lparr>tstamp := 7\<rparr>) = request_uri api [(''ns'', ''n''), (''set'', ''s''), (''key'', ''k'')]"
    using sample_request_facts(2) by (auto simp: asks_for_def)
  have clk: "lib_clock sample_libs ?w = (\<lparr>tv_sec = 0, tv_usec = 0\<rparr>, ?w)" by (simp add: sample_libs_def)
  obtain rep s' where h: "handle_request sample_libs (1 :: nat) (sample_request\<lparr>tstamp := 7\<rparr>) (reply_new Ok)
      (want_keepalive (lib_boost sample_libs) sample_request) (?c, ?w) = Inr (rep, s')"
    using get_request_reply [OF _ _ _ _ api(1,2) _ api(3) clk, of ?c 1 sample_object] G sample_libs_facts(1)
    unfolding libs_ok_def sample_libs_facts(3,4) by (fastforce simp: jref_lib_def)
  obtain c' w' where s': "s' = (c', w')" by (cases s')
  obtain conn' outs where r: "conn_run (lib_boost sample_libs) (handle_request sample_libs 1) ?evs sample_conn (?c, ?w) =
      Inr (conn', outs, c', w')"
    using exchange_run [OF accepted_facts(5) sample_request_facts(1), of sample_libs "1 :: nat" 7 "(?c, ?w)"]
    unfolding h s' by auto
  have "conns (pooled_proxy sample_object) 1 = Some sample_conn" "\<not> io_stopped (srv (pooled_proxy sample_object))"
    "asOP (srv (pooled_proxy sample_object)) = ?c"
    by (simp_all add: pooled_proxy_def accepted_facts del: One_nat_def)
  then show ?thesis
    using completed_run [of "pooled_proxy sample_object" 1 sample_conn sample_libs "1 :: nat" ?evs ?w] r by auto
qed


end
