(* ===== verification/Boot_Run.thy ===== *)
theory Boot_Run
  imports Proxy_Properties
begin

text \<open>
  The running program from the moment its threads exist: \<open>run\<close> of \<open>server.cpp\<close> starts the threads before it
  calls \<open>Initialize\<close>, so the event loop already takes completions while the main thread goes through the
  table of threads. A list of events interleaves the two: \<open>Enter\<close> is an iteration of the loop of
  \<open>Initialize\<close> on the next of the keys left, \<open>Act\<close> an action of the server. An iteration is
  one step here; \<open>Startup\<close> cuts it in two.
\<close>

datatype 't boot_event = Enter | Act "'t action"

definition enter_thread :: "('j, 'w, 'z) libs \<Rightarrow> 't \<Rightarrow> 't proxy \<Rightarrow> 'w \<Rightarrow> 't proxy \<times> 'w" where
  "enter_thread L key p w =
     (let (c, w') = Initialize_loop (lib_as L) [key] (asOP (srv p)) w in (p\<lparr>srv := (srv p)\<lparr>asOP := c\<rparr>\<rparr>, w'))"

type_synonym ('t, 'w) boot_state = "'t list \<times> 't proxy \<times> 'w"

fun boot_act :: "('j, 'w, 'z) libs \<Rightarrow> 't boot_event \<Rightarrow> ('t, 'w) boot_state \<Rightarrow> ('t, 'w) boot_state outcome" where
  "boot_act L Enter ([], p, w) = Inr ([], p, w)"
| "boot_act L Enter (key # keys, p, w) = Inr (keys, enter_thread L key p w)"
| "boot_act L (Act a) (keys, p, w) = (case proxy_act L a p w of Inl e \<Rightarrow> Inl e | Inr s \<Rightarrow> Inr (keys, s))"

fun boot_run :: "('j, 'w, 'z) libs \<Rightarrow> 't boot_event list \<Rightarrow> ('t, 'w) boot_state \<Rightarrow> ('t, 'w) boot_state outcome" where
  "boot_run L [] s = Inr s"
| "boot_run L (e # es) s = (case boot_act L e s of Inl u \<Rightarrow> Inl u | Inr s' \<Rightarrow> boot_run L es s')"

section \<open>One step\<close>

lemma enter_thread_effect:
  assumes "enter_thread L t p w = (p', w')"
  shows "dom (objects_of p') = insert t (dom (objects_of p))" "sent p' = sent p" "conns p' = conns p"
    "io_stopped (srv p') = io_stopped (srv p)" "proxy_inv p \<Longrightarrow> proxy_inv p'"
    "t' \<noteq> t \<Longrightarrow> objects_of p' t' = objects_of p t'" "objects_of p t = Some x \<Longrightarrow> p' = p \<and> w' = w"
proof -
  have g: "Initialize_loop (lib_as L) [t] (asOP (srv p)) w = GetAsObject (lib_as L) t (asOP (srv p)) w"
    by (simp add: GetAsObject_def split: prod.split)
  obtain c v where g2: "GetAsObject (lib_as L) t (asOP (srv p)) w = (c, v)" by fastforce
  then have p': "p' = p\<lparr>srv := (srv p)\<lparr>asOP := c\<rparr>\<rparr>" and "v = w'"
    using assms unfolding enter_thread_def g by simp_all
  with g2 have c: "GetAsObject (lib_as L) t (asOP (srv p)) w = (c, w')" by simp
  show "dom (objects_of p') = insert t (dom (objects_of p))"
    using GetAsObject_step [OF c] by (auto simp: p' objects_of_def pool_step_def)
  show "t' \<noteq> t \<Longrightarrow> objects_of p' t' = objects_of p t'"
    using GetAsObject_step(2) [OF c] by (simp add: p' objects_of_def)
  show "objects_of p t = Some x \<Longrightarrow> p' = p \<and> w' = w"
    using c by (simp add: GetAsObject_def objects_of_def p')
  show "proxy_inv p \<Longrightarrow> proxy_inv p'"
    unfolding p' by (rule proxy_inv_srv) (simp_all add: proxy_inv_def)
  show "sent p' = sent p" "conns p' = conns p" "io_stopped (srv p') = io_stopped (srv p)" by (simp_all add: p')
qed

lemma stopped_act: "io_stopped (srv p) \<Longrightarrow> proxy_act L a p w = Inr (p, w)"
  by (cases a) (simp_all split: option.split)

lemma signal_act:
  assumes "proxy_inv p" and "proxy_act L Signalled p w = Inr (p', w')"
  shows "io_stopped (srv p')"
  using assms by (auto simp: proxy_inv_def server_inv_def handle_stop_def split: if_splits)

lemma runs_on_Completed: "runs_on t a \<Longrightarrow> \<exists>i ev. a = Completed t i ev"
  by (cases a) simp_all

lemma boot_act_cases [consumes 1, case_names idle enter act]:
  assumes "boot_act L e (keys, p, w) = Inr (keys', p', w')"
  obtains "e = Enter" "keys = []" "keys' = []" "p' = p" "w' = w"
  | t where "e = Enter" "keys = t # keys'" "enter_thread L t p w = (p', w')"
  | a where "e = Act a" "keys' = keys" "proxy_act L a p w = Inr (p', w')"
  using assms by (cases e; cases keys) (auto split: sum.splits)

section \<open>A whole run\<close>

lemma boot_run_Cons:
  assumes "boot_run L (e # es) (keys, p, w) = Inr s'"
  obtains keys1 p1 w1 where "boot_act L e (keys, p, w) = Inr (keys1, p1, w1)" "boot_run L es (keys1, p1, w1) = Inr s'"
  using assms by (auto split: sum.splits)

lemma boot_run_inv:
  assumes "\<And>e keys p w keys' p' w'. P p \<Longrightarrow> boot_act L e (keys, p, w) = Inr (keys', p', w') \<Longrightarrow> P p'"
  shows "P p \<Longrightarrow> boot_run L es (keys, p, w) = Inr (keys', p', w') \<Longrightarrow> P p'"
proof (induction es arbitrary: keys p w)
  case (Cons e es)
  obtain keys1 p1 w1 where a: "boot_act L e (keys, p, w) = Inr (keys1, p1, w1)"
    and r: "boot_run L es (keys1, p1, w1) = Inr (keys', p', w')" by (rule boot_run_Cons [OF Cons.prems(2)])
  show ?case by (rule Cons.IH [OF assms [OF Cons.prems(1) a] r])
qed simp

lemma boot_inv_act: "proxy_inv p \<Longrightarrow> boot_act L e (keys, p, w) = Inr (keys', p', w') \<Longrightarrow> proxy_inv p'"
  by (erule boot_act_cases) (simp, erule enter_thread_effect(5), assumption, erule proxy_inv_act, assumption)

lemma boot_inv_run:
  assumes "proxy_inv p" and "boot_run L es (keys, p, w) = Inr (keys', p', w')"
  shows "proxy_inv p'"
  by (rule boot_run_inv [where P = proxy_inv, OF _ assms]) (rule boot_inv_act)

lemma boot_stopped_act:
  "io_stopped (srv p) \<Longrightarrow> boot_act L e (keys, p, w) = Inr (keys', p', w') \<Longrightarrow> io_stopped (srv p')"
  by (erule boot_act_cases) (simp, frule enter_thread_effect(4), simp, simp add: stopped_act)

lemma boot_stopped:
  assumes "io_stopped (srv p)" and "boot_run L es (keys, p, w) = Inr (keys', p', w')"
  shows "io_stopped (srv p')"
  by (rule boot_run_inv [where P = "\<lambda>p. io_stopped (srv p)", OF _ assms]) (rule boot_stopped_act)

lemma boot_sent_act:
  assumes "boot_act L e (keys, p, w) = Inr (keys', p', w')"
  shows "\<exists>out. sent p' i = sent p i @ out"
  using assms by (cases rule: boot_act_cases) (simp, simp add: enter_thread_effect(2), erule sent_prefix_act)

lemma boot_sent:
  assumes "boot_run L es (keys, p, w) = Inr (keys', p', w')"
  shows "\<exists>out. sent p' i = sent p i @ out"
proof -
  have "\<exists>out. sent q' i = sent p i @ out"
    if "\<exists>out. sent q i = sent p i @ out" "boot_act L e (ks, q, v) = Inr (ks', q', v')" for e ks q v ks' q' v'
    using that(1) boot_sent_act [OF that(2), of i] by fastforce
  then show ?thesis by (rule boot_run_inv [OF _ _ assms]) simp_all
qed

lemma boot_stops:
  "proxy_inv p \<Longrightarrow> Act Signalled \<in> set es \<Longrightarrow> boot_run L es (keys, p, w) = Inr (keys', p', w') \<Longrightarrow> io_stopped (srv p')"
proof (induction es arbitrary: keys p w)
  case (Cons e es)
  obtain keys1 p1 w1 where a: "boot_act L e (keys, p, w) = Inr (keys1, p1, w1)"
    and r: "boot_run L es (keys1, p1, w1) = Inr (keys', p', w')" by (rule boot_run_Cons [OF Cons.prems(3)])
  show ?case
  proof (cases "e = Act Signalled")
    case True
    have "proxy_act L Signalled p w = Inr (p1, w1)"
      using a unfolding True boot_act.simps by (auto split: sum.splits simp del: proxy_act.simps)
    from boot_stopped [OF signal_act [OF Cons.prems(1) this] r] show ?thesis .
  next
    case False
    then show ?thesis using Cons.IH [OF boot_inv_act [OF Cons.prems(1) a] _ r] Cons.prems(2) by simp
  qed
qed simp

lemma boot_pool:
  "boot_run L es (keys, p, w) = Inr (keys', p', w') \<Longrightarrow>
     keys' = drop (length (filter (\<lambda>e. e = Enter) es)) keys \<and>
     dom (objects_of p) \<union> set (take (length (filter (\<lambda>e. e = Enter) es)) keys) \<subseteq> dom (objects_of p') \<and>
     dom (objects_of p') \<subseteq> dom (objects_of p) \<union> set keys \<union> {t. \<exists>a. Act a \<in> set es \<and> runs_on t a}"
proof (induction es arbitrary: keys p w)
  case (Cons e es)
  obtain keys1 p1 w1 where a: "boot_act L e (keys, p, w) = Inr (keys1, p1, w1)"
    and r: "boot_run L es (keys1, p1, w1) = Inr (keys', p', w')" by (rule boot_run_Cons [OF Cons.prems])
  note IH = Cons.IH [OF r]
  show ?case using a
  proof (cases rule: boot_act_cases)
    case idle
    then show ?thesis using IH by auto
  next
    case (enter t)
    then show ?thesis using IH enter_thread_effect(1) [OF enter(3)] by auto
  next
    case (act b)
    have T: "{t. \<exists>a. Act a \<in> set (e # es) \<and> runs_on t a} = {t. runs_on t b} \<union> {t. \<exists>a. Act a \<in> set es \<and> runs_on t a}"
      using act(1) by auto
    have F: "filter (\<lambda>e. e = Enter) (e # es) = filter (\<lambda>e. e = Enter) es" using act(1) by simp
    have "dom (objects_of p) \<subseteq> dom (objects_of p1)" "dom (objects_of p1) \<subseteq> dom (objects_of p) \<union> {t. runs_on t b}"
      using pool_act(1) [OF act(3)] unfolding pool_step_def by blast+
    then show ?thesis unfolding F T using IH unfolding act(2) by (intro conjI) (elim conjE, assumption, blast, blast)
  qed
qed simp

lemma boot_framed_act:
  assumes "boost_contract (lib_boost L)" and "boot_act L e (keys, p, w) = Inr (keys', p', w')"
    and "\<forall>x \<in> set (sent p i). framed x" and "\<forall>x \<in> set (sent p' i). int (length x) \<le> 2147483647"
  shows "\<forall>x \<in> set (sent p' i). framed x"
  using assms(2)
proof (cases rule: boot_act_cases)
  case (act a)
  show ?thesis by (rule sent_framed_act [OF assms(1) act(3) assms(3,4)])
next
  case (enter t)
  then show ?thesis using assms(3) enter_thread_effect(2) [OF enter(3)] by simp
qed (use assms(3) in simp)

lemma boot_framed:
  assumes "boost_contract (lib_boost L)"
  shows "boot_run L es (keys, p, w) = Inr (keys', p', w') \<Longrightarrow> \<forall>x \<in> set (sent p i). framed x \<Longrightarrow>
    \<forall>x \<in> set (sent p' i). int (length x) \<le> 2147483647 \<Longrightarrow> \<forall>x \<in> set (sent p' i). framed x"
proof (induction es arbitrary: keys p w)
  case (Cons e es)
  obtain keys1 p1 w1 where a: "boot_act L e (keys, p, w) = Inr (keys1, p1, w1)"
    and r: "boot_run L es (keys1, p1, w1) = Inr (keys', p', w')" by (rule boot_run_Cons [OF Cons.prems(1)])
  have "\<forall>x \<in> set (sent p1 i). int (length x) \<le> 2147483647" using boot_sent [OF r, of i] Cons.prems(3) by auto
  from Cons.IH [OF r boot_framed_act [OF assms a Cons.prems(2) this] Cons.prems(3)] show ?case .
qed simp

lemma boot_fault:
  assumes "no_failures L"
  shows "proxy_inv p \<Longrightarrow> boot_run L es (keys, p, w) = Inl u \<Longrightarrow> u \<in> {Signed_overflow, Uninitialised_read}"
proof (induction es arbitrary: keys p w)
  case (Cons e es)
  show ?case
  proof (cases "boot_act L e (keys, p, w)")
    case (Inl v)
    then obtain b where "e = Act b" "proxy_act L b p w = Inl v" by (cases e; cases keys) (auto split: sum.splits)
    then show ?thesis using proxy_run_fault [OF assms Cons.prems(1), of "[b]" w u] Cons.prems(2) Inl by simp
  next
    case (Inr s)
    obtain keys1 p1 w1 where a: "boot_act L e (keys, p, w) = Inr (keys1, p1, w1)" using Inr by (cases s) simp
    show ?thesis by (rule Cons.IH [OF boot_inv_act [OF Cons.prems(1) a]]) (use Cons.prems(2) a in simp)
  qed
qed simp

section \<open>\<open>Initialize\<close> before everything else\<close>

lemma boot_run_append:
  "boot_run L (es @ fs) s = (case boot_run L es s of Inl u \<Rightarrow> Inl u | Inr s' \<Rightarrow> boot_run L fs s')"
  by (induction es arbitrary: s) (auto split: sum.split)

lemma boot_run_acts:
  "boot_run L (map Act as) (keys, p, w) = (case proxy_run L as p w of Inl u \<Rightarrow> Inl u | Inr s \<Rightarrow> Inr (keys, s))"
  by (induction as arbitrary: p w) (auto split: sum.split)

lemma boot_run_first:
  "boot_run L (replicate (length keys) Enter) (keys, p, w) =
     (let (c, w') = Initialize (lib_as L) keys (asOP (srv p)) w in Inr ([], p\<lparr>srv := (srv p)\<lparr>asOP := c\<rparr>\<rparr>, w'))"
proof (induction keys arbitrary: p w)
  case (Cons t ts)
  obtain c w1 where c: "(if rAsList (asOP (srv p)) t = None then insert_object (lib_as L) t (asOP (srv p)) w
      else (asOP (srv p), w)) = (c, w1)" by fastforce
  then have "enter_thread L t p w = (p\<lparr>srv := (srv p)\<lparr>asOP := c\<rparr>\<rparr>, w1)" by (simp add: enter_thread_def)
  then show ?case using Cons [of "p\<lparr>srv := (srv p)\<lparr>asOP := c\<rparr>\<rparr>" w1] c by (simp add: Initialize_def)
qed (simp add: Initialize_def)

end
