(* ===== verification/Calendar.thy ===== *)
theory Calendar
  imports C_Stdlib
begin

text \<open>
  The part of \<open>time.h\<close> the program uses: \<open>struct tm\<close>, \<open>gmtime\<close> and \<open>timegm\<close> on a count of seconds,
  local time as a zone with a fixed offset, \<open>strftime\<close> and \<open>printf\<close> of dates, and \<open>strptime\<close> for
  the one format the program reads (as glibc reads it). The functions of \<open>util.cpp\<close> on top of them
  are in \<open>Util_Time\<close>.
\<close>

record tm =
  tm_year :: int
  tm_mon :: int
  tm_mday :: int
  tm_hour :: int
  tm_min :: int
  tm_sec :: int

section \<open>Days and years\<close>

definition is_leap :: "int \<Rightarrow> bool" where
  "is_leap y \<longleftrightarrow> y mod 4 = 0 \<and> (y mod 100 \<noteq> 0 \<or> y mod 400 = 0)"

definition year_days :: "int \<Rightarrow> int" where
  "year_days y = (if is_leap y then 366 else 365)"

text \<open>The number of days from 1970-01-01 to the first day of a year.\<close>

definition leaps :: "int \<Rightarrow> int" where
  "leaps y = y div 4 - y div 100 + y div 400"

definition days_before_year :: "int \<Rightarrow> int" where
  "days_before_year y = 365 * (y - 1970) + leaps (y - 1) - leaps 1969"

definition month_days :: "int \<Rightarrow> int list" where
  "month_days y = [31, if is_leap y then 29 else 28, 31, 30, 31, 30, 31, 31, 30, 31, 30, 31]"

definition days_before_month :: "int \<Rightarrow> nat \<Rightarrow> int" where
  "days_before_month y m = sum_list (take m (month_days y))"

lemma leaps_step: "leaps y - leaps (y - 1) = (if is_leap y then 1 else 0)"
proof -
  have quot: "y div k - (y - 1) div k = (if y mod k = 0 then 1 else 0)" if "0 < k" for k :: int
  proof -
    have "y = k * (y div k) + y mod k" by simp
    then have "(y - 1) div k = y div k + (y mod k - 1) div k"
      using div_mult_self2 [of k "y mod k - 1" "y div k"] that by (simp add: algebra_simps)
    moreover have "(y mod k - 1) div k = (if y mod k = 0 then -1 else 0)"
    proof (cases "y mod k = 0")
      case True
      with that show ?thesis by (simp add: div_eq_minus1)
    next
      case False
      moreover have "0 \<le> y mod k" "y mod k < k" using that by simp_all
      ultimately have "0 \<le> y mod k - 1" "y mod k - 1 < k" by linarith+
      with False show ?thesis by (simp add: div_pos_pos_trivial)
    qed
    ultimately show ?thesis by simp
  qed
  have dvd: "y mod 400 = 0 \<Longrightarrow> y mod 100 = 0" "y mod 100 = 0 \<Longrightarrow> y mod 4 = 0"
    using dvd_trans [of 100 400 y] dvd_trans [of 4 100 y] by (simp_all add: mod_eq_0_iff_dvd)
  have gen: "a - b + c - (a' - b' + c') = (a - a') - (b - b') + (c - c')" for a b c a' b' c' :: int
    by linarith
  have "leaps y - leaps (y - 1) = (y div 4 - (y - 1) div 4) - (y div 100 - (y - 1) div 100) + (y div 400 - (y - 1) div 400)"
    unfolding leaps_def by (rule gen)
  also have "\<dots> = (if y mod 4 = 0 then 1 else 0) - (if y mod 100 = 0 then 1 else 0) + (if y mod 400 = 0 then 1 else 0)"
    by (simp only: quot zero_less_numeral simp_thms)
  also have "\<dots> = (if is_leap y then 1 else 0)"
    unfolding is_leap_def
    by (cases "y mod 400 = 0"; cases "y mod 100 = 0"; cases "y mod 4 = 0"; use dvd in \<open>simp only: if_True if_False\<close>)
      simp_all
  finally show ?thesis .
qed

lemma days_before_year_step: "days_before_year (y + 1) = days_before_year y + year_days y"
proof -
  have "days_before_year (y + 1) = 365 * (y + 1 - 1970) + leaps y - leaps 1969"
    by (simp only: days_before_year_def add_diff_cancel_right')
  moreover have "year_days y = 365 + (leaps y - leaps (y - 1))"
    unfolding leaps_step year_days_def by simp
  ultimately show ?thesis by (simp add: days_before_year_def [of y] algebra_simps)
qed

text \<open>The year of a day, counted from the first day of \<open>y\<close>, and the day within it.\<close>

function find_year :: "int \<Rightarrow> int \<Rightarrow> int \<times> int" where
  "find_year y d =
     (if d < 0 then find_year (y - 1) (d + year_days (y - 1))
      else if d \<ge> year_days y then find_year (y + 1) (d - year_days y)
      else (y, d))"
  by pat_completeness auto
termination
  by (relation "measure (\<lambda>(y, d). nat (if d < 0 then 366 - d else d))")
    (auto simp: year_days_def split: if_splits)

declare find_year.simps [simp del]

lemma year_days_positive: "0 < year_days y"
  by (simp add: year_days_def)

lemma find_year_day:
  "find_year y d = (y', d') \<Longrightarrow>
     days_before_year y' + d' = days_before_year y + d \<and> 0 \<le> d' \<and> d' < year_days y'"
proof (induction y d rule: find_year.induct)
  case (1 y d)
  consider "d < 0" | "0 \<le> d" "year_days y \<le> d" | "0 \<le> d" "d < year_days y" by linarith
  then show ?case
  proof cases
    case 1
    then show ?thesis
      using "1.IH"(1) "1.prems" days_before_year_step [of "y - 1"] by (simp add: find_year.simps [of y d])
  next
    case 2
    then show ?thesis
      using "1.IH"(2) "1.prems" days_before_year_step [of y] by (simp add: find_year.simps [of y d])
  next
    case 3
    then show ?thesis using "1.prems" by (simp add: find_year.simps [of y d])
  qed
qed

fun find_month :: "int list \<Rightarrow> nat \<Rightarrow> int \<Rightarrow> nat \<times> int" where
  "find_month [] m d = (m, d)"
| "find_month (l # ls) m d = (if d < l then (m, d) else find_month ls (m + 1) (d - l))"

lemma find_month_day:
  assumes "find_month ls m d = (m', d')" and "0 \<le> d" and "d < sum_list ls"
  shows "m \<le> m' \<and> m' - m < length ls \<and> sum_list (take (m' - m) ls) + d' = d \<and> 0 \<le> d' \<and> d' < ls ! (m' - m)"
  using assms
proof (induction ls m d rule: find_month.induct)
  case (1 m d)
  then show ?case by simp
next
  case (2 l ls m d)
  show ?case
  proof (cases "d < l")
    case True
    with 2 show ?thesis by simp
  next
    case False
    with 2 have "m + 1 \<le> m' \<and> m' - (m + 1) < length ls \<and> sum_list (take (m' - (m + 1)) ls) + d' = d - l \<and>
        0 \<le> d' \<and> d' < ls ! (m' - (m + 1))"
      by simp
    moreover from this have "m' - m = Suc (m' - (m + 1))" by linarith
    ultimately show ?thesis by simp
  qed
qed

lemma sum_month_days: "sum_list (month_days y) = year_days y"
  by (simp add: month_days_def year_days_def)

lemma days_before_year_1970: "days_before_year 1970 = 0"
  by (simp add: days_before_year_def)

section \<open>Seconds and broken-down time\<close>

definition gmtime :: "int \<Rightarrow> tm" where
  "gmtime t =
     (let (y, yd) = find_year 1970 (t div 86400); (m, d) = find_month (month_days y) 0 yd; s = t mod 86400
      in \<lparr>tm_year = y - 1900, tm_mon = int m, tm_mday = d + 1, tm_hour = s div 3600,
          tm_min = s mod 3600 div 60, tm_sec = s mod 60\<rparr>)"

definition timegm :: "tm \<Rightarrow> int" where
  "timegm tm =
     (let y = tm_year tm + 1900
      in (days_before_year y + days_before_month y (nat (tm_mon tm)) + tm_mday tm - 1) * 86400 +
         tm_hour tm * 3600 + tm_min tm * 60 + tm_sec tm)"

definition valid_tm :: "tm \<Rightarrow> bool" where
  "valid_tm tm \<longleftrightarrow>
     0 \<le> tm_mon tm \<and> tm_mon tm \<le> 11 \<and> 1 \<le> tm_mday tm \<and> tm_mday tm \<le> 31 \<and>
     0 \<le> tm_hour tm \<and> tm_hour tm \<le> 23 \<and> 0 \<le> tm_min tm \<and> tm_min tm \<le> 59 \<and>
     0 \<le> tm_sec tm \<and> tm_sec tm \<le> 59"

lemma month_days_le: "m < 12 \<Longrightarrow> month_days y ! m \<le> 31"
  using nth_mem [of m "month_days y"] by (auto simp: month_days_def)

lemma seconds_of_day:
  fixes s :: int
  shows "s div 3600 * 3600 + s mod 3600 div 60 * 60 + s mod 60 = s"
proof -
  have "s mod 3600 mod 60 = s mod 60" by (simp add: mod_mod_cancel)
  then show ?thesis
    using div_mult_mod_eq [of s 3600] div_mult_mod_eq [of "s mod 3600" 60] by linarith
qed

lemma clock_range:
  fixes s :: int
  assumes "0 \<le> s" and "s < 86400"
  shows "0 \<le> s div 3600" "s div 3600 \<le> 23" "0 \<le> s mod 3600 div 60" "s mod 3600 div 60 \<le> 59"
  using assms pos_mod_bound [of 3600 s] pos_mod_sign [of 3600 s] by linarith+

lemma mod_60: "0 \<le> s mod 60" "s mod 60 \<le> 59" for s :: int
  using pos_mod_bound [of 60 s] by simp_all

lemma gmtime_facts: "valid_tm (gmtime t)" "timegm (gmtime t) = t"
proof -
  obtain y yd where y: "find_year 1970 (t div 86400) = (y, yd)" by fastforce
  obtain m d where m: "find_month (month_days y) 0 yd = (m, d)" by fastforce
  have fy: "days_before_year y + yd = t div 86400" "0 \<le> yd" "yd < sum_list (month_days y)"
    using find_year_day [OF y] by (simp_all add: sum_month_days days_before_year_1970)
  have fm: "m < 12" "days_before_month y m + d = yd" "0 \<le> d" "d < month_days y ! m"
    using find_month_day [OF m fy(2,3)] by (simp_all add: days_before_month_def month_days_def)
  have d: "d < 31" using fm(4) month_days_le [OF fm(1), of y] by linarith
  define h mi sec where "h = t mod 86400 div 3600" and "mi = t mod 86400 mod 3600 div 60"
    and "sec = t mod 86400 mod 60"
  have r: "0 \<le> h" "h \<le> 23" "0 \<le> mi" "mi \<le> 59" "0 \<le> sec" "sec \<le> 59"
    unfolding h_def mi_def sec_def
    by (rule clock_range mod_60 pos_mod_sign pos_mod_bound zero_less_numeral)+
  have g: "gmtime t = \<lparr>tm_year = y - 1900, tm_mon = int m, tm_mday = d + 1, tm_hour = h, tm_min = mi, tm_sec = sec\<rparr>"
    unfolding gmtime_def y m Let_def split h_def mi_def sec_def by (rule refl)
  show "valid_tm (gmtime t)"
    unfolding g using fm(1,3) d r by (simp add: valid_tm_def)
  have sum: "h * 3600 + mi * 60 + sec = t mod 86400"
    unfolding h_def mi_def sec_def by (rule seconds_of_day)
  have "timegm (gmtime t) = (days_before_year y + days_before_month y m + d) * 86400 + (h * 3600 + mi * 60 + sec)"
    unfolding g by (simp add: timegm_def Let_def)
  also have "\<dots> = t div 86400 * 86400 + t mod 86400"
    unfolding sum using fm(2) fy(1) by (simp only: add.assoc)
  finally show "timegm (gmtime t) = t" by (simp only: div_mult_mod_eq)
qed

text \<open>Local time in a zone that is \<open>off\<close> seconds ahead of UTC.\<close>

definition localtime :: "int \<Rightarrow> int \<Rightarrow> tm" where
  "localtime off t = gmtime (t + off)"

definition mktime :: "int \<Rightarrow> tm \<Rightarrow> int" where
  "mktime off tm = timegm tm - off"

lemma mktime_localtime [simp]: "mktime off (localtime off t) = t"
  by (simp add: mktime_def localtime_def gmtime_facts)

section \<open>Printing dates\<close>

text \<open>\<open>%0wd\<close>, in which a sign counts as one of the \<open>w\<close> characters.\<close>

definition padded :: "nat \<Rightarrow> int \<Rightarrow> string" where
  "padded w n =
     (if n < 0 then (let ds = dec_string (nat (- n)) in ''-'' @ replicate (w - 1 - length ds) (CHR ''0'') @ ds)
      else (let ds = dec_string (nat n) in replicate (w - length ds) (CHR ''0'') @ ds))"

text \<open>The text of \<open>strftime\<close> for \<open>%Y-%m-%d\<close> and for \<open>%Y-%m-%d %H:%M:%S\<close>.\<close>

definition date_text :: "tm \<Rightarrow> string" where
  "date_text tm =
     padded 1 (tm_year tm + 1900) @ ''-'' @ padded 2 (tm_mon tm + 1) @ ''-'' @ padded 2 (tm_mday tm)"

definition time_text :: "tm \<Rightarrow> string" where
  "time_text tm =
     date_text tm @ '' '' @ padded 2 (tm_hour tm) @ '':'' @ padded 2 (tm_min tm) @ '':'' @ padded 2 (tm_sec tm)"

text \<open>What \<open>strftime\<close> leaves in a buffer of \<open>n\<close> characters: the text, or something undetermined when
  the text and its terminating zero do not fit.\<close>

definition strftime :: "nat \<Rightarrow> string \<Rightarrow> string outcome" where
  "strftime n s = (if length s + 1 \<le> n then Inr s else Inl Uninitialised_read)"

lemma padded_2:
  assumes "0 \<le> n" and "n \<le> 99"
  shows "padded 2 n = [digit_char (nat n div 10), digit_char (nat n mod 10)]"
proof (cases "n < 10")
  case True
  with assms show ?thesis
    by (simp add: padded_def dec_string.simps [of "nat n"] digit_char_simps nat_less_iff Let_def)
next
  case False
  then have "\<not> nat n < 10" by linarith
  moreover have "nat n div 10 < 10" using assms by linarith
  ultimately have "dec_string (nat n) = [digit_char (nat n div 10), digit_char (nat n mod 10)]"
    by (simp add: dec_string.simps [of "nat n"] dec_string.simps [of "nat n div 10"])
  with assms show ?thesis by (simp add: padded_def)
qed

section \<open>Reading dates\<close>

fun number_digits :: "nat \<Rightarrow> int \<Rightarrow> int \<Rightarrow> string \<Rightarrow> int \<times> string" where
  "number_digits n hi v [] = (v, [])"
| "number_digits n hi v (c # cs) =
     (if 0 < n \<and> v * 10 \<le> hi \<and> isdigit c then number_digits (n - 1) hi (v * 10 + int (uchar c - 48)) cs
      else (v, c # cs))"

text \<open>A number from \<open>lo\<close> to \<open>hi\<close> of at most \<open>n\<close> digits after blanks.\<close>

definition get_number :: "int \<Rightarrow> int \<Rightarrow> nat \<Rightarrow> string \<Rightarrow> (int \<times> string) option" where
  "get_number lo hi n s =
     (case dropWhile (\<lambda>c. c = CHR '' '') s of
        [] \<Rightarrow> None
      | c # cs \<Rightarrow>
          if isdigit c then
            (let (v, rest) = number_digits (n - 1) hi (int (uchar c - 48)) cs
             in if lo \<le> v \<and> v \<le> hi then Some (v, rest) else None)
          else None)"

definition get_char :: "char \<Rightarrow> string \<Rightarrow> string option" where
  "get_char c s = (case s of [] \<Rightarrow> None | x # xs \<Rightarrow> if x = c then Some xs else None)"

text \<open>\<open>strptime(s, "%Y-%m-%d %H:%M:%S", &tm)\<close>, where a blank of the format matches any white space;
  \<open>None\<close> when it stops before it has set all fields.\<close>

definition strptime :: "string \<Rightarrow> tm option" where
  "strptime s =
     Option.bind (get_number 0 9999 4 s) (\<lambda>(y, s). Option.bind (get_char (CHR ''-'') s) (\<lambda>s.
     Option.bind (get_number 1 12 2 s) (\<lambda>(m, s). Option.bind (get_char (CHR ''-'') s) (\<lambda>s.
     Option.bind (get_number 1 31 2 s) (\<lambda>(d, s).
     Option.bind (get_number 0 23 2 (dropWhile isspace s)) (\<lambda>(h, s). Option.bind (get_char (CHR '':'') s) (\<lambda>s.
     Option.bind (get_number 0 59 2 s) (\<lambda>(mi, s). Option.bind (get_char (CHR '':'') s) (\<lambda>s.
     Option.bind (get_number 0 61 2 s) (\<lambda>(sec, s).
       Some \<lparr>tm_year = y - 1900, tm_mon = m - 1, tm_mday = d, tm_hour = h, tm_min = mi, tm_sec = sec\<rparr>))))))))))"

lemma get_number_start:
  assumes "d < 10"
  shows "get_number lo hi n (digit_char d # cs) =
    (let (v, rest) = number_digits (n - 1) hi (int d) cs in if lo \<le> v \<and> v \<le> hi then Some (v, rest) else None)"
proof -
  have "uchar (digit_char d) \<noteq> 32" using assms by simp
  then have "digit_char d \<noteq> CHR '' ''" by auto
  then show ?thesis using assms by (simp add: get_number_def)
qed

lemma get_number_2:
  assumes "0 \<le> n" and "lo \<le> n" and "n \<le> hi" and "n \<le> 99"
  shows "get_number lo hi 2 (padded 2 n @ rest) = Some (n, rest)"
proof -
  have d: "nat n div 10 < 10" "nat n mod 10 < 10" using assms(4) by linarith+
  have "int (nat n div 10 * 10 + nat n mod 10) = n"
    by (simp only: div_mult_mod_eq nat_0_le [OF assms(1)])
  then have n: "int (nat n div 10) * 10 + int (nat n mod 10) = n"
    by (simp only: of_nat_add of_nat_mult of_nat_numeral)
  then have "int (nat n div 10) * 10 \<le> hi" using assms by linarith
  then show ?thesis
    unfolding padded_2 [OF assms(1,4)] using d n assms
    by (cases rest) (simp_all add: get_number_start)
qed

lemma get_number_digits:
  assumes "a < 10" "b < 10" "c < 10" "d < 10"
  shows "get_number 0 9999 4 ([digit_char a, digit_char b, digit_char c, digit_char d] @ ''-'' @ rest) =
    Some (int (((a * 10 + b) * 10 + c) * 10 + d), ''-'' @ rest)"
  using assms by (simp add: get_number_start)

lemma get_number_year:
  assumes "1000 \<le> n" and "n \<le> 9999"
  shows "get_number 0 9999 4 (padded 1 n @ ''-'' @ rest) = Some (n, ''-'' @ rest)"
proof -
  let ?n = "nat n"
  have b: "1000 \<le> ?n" "?n \<le> 9999" using assms by auto
  have r: "\<not> ?n < 10" "\<not> ?n div 10 < 10" "\<not> ?n div 100 < 10" "?n div 1000 < 10"
    using b by linarith+
  then have ds: "dec_string ?n = [digit_char (?n div 1000), digit_char (?n div 100 mod 10),
      digit_char (?n div 10 mod 10), digit_char (?n mod 10)]"
    by (simp add: dec_string.simps [of ?n] dec_string.simps [of "?n div 10"] dec_string.simps [of "?n div 100"]
        dec_string.simps [of "?n div 1000"] flip: div_mult2_eq)
  have "?n div 100 = ?n div 1000 * 10 + ?n div 100 mod 10"
    using div_mult_mod_eq [of "?n div 100" 10] by (simp flip: div_mult2_eq)
  moreover have "?n div 10 = ?n div 100 * 10 + ?n div 10 mod 10"
    using div_mult_mod_eq [of "?n div 10" 10] by (simp flip: div_mult2_eq)
  ultimately have v: "((?n div 1000 * 10 + ?n div 100 mod 10) * 10 + ?n div 10 mod 10) * 10 + ?n mod 10 = ?n"
    using div_mult_mod_eq [of ?n 10] by (simp only:)
  have "padded 1 n = dec_string ?n"
    using assms by (simp add: padded_def ds)
  then show ?thesis
    using get_number_digits [OF r(4), of "?n div 100 mod 10" "?n div 10 mod 10" "?n mod 10" rest] assms
    unfolding v by (simp add: ds)
qed

lemma strptime_time_text:
  assumes "valid_tm tm" and "1000 \<le> tm_year tm + 1900" and "tm_year tm + 1900 \<le> 9999"
  shows "strptime (time_text tm) = Some tm"
proof -
  have sp: "dropWhile isspace (padded 2 n @ rest) = padded 2 n @ rest" if "0 \<le> n" "n \<le> 99" for n rest
    using that by (simp add: padded_2 isspace_def)
  have sp2: "isspace (CHR '' '')" by (simp add: isspace_def)
  have "get_number 0 61 2 (padded 2 (tm_sec tm) @ []) = Some (tm_sec tm, [])"
    using assms(1) by (intro get_number_2) (auto simp: valid_tm_def)
  then have last: "get_number 0 61 2 (padded 2 (tm_sec tm)) = Some (tm_sec tm, [])" by simp
  show ?thesis
    using assms
    by (simp add: strptime_def time_text_def date_text_def get_number_year [simplified] get_number_2 get_char_def
        sp sp2 last valid_tm_def)
qed

end
