(* ===== verification/Util_System.thy ===== *)
theory Util_System
  imports Calendar "HOL-Library.Word"
begin

text \<open>
  The functions of \<open>src/util.cpp\<close> that ask the clock, the file system or the log, with
  \<open>getTimeString\<close> of \<open>as_control.hpp\<close>, the start-up time of \<open>server.cpp\<close> and \<open>getFileText\<close> of
  \<open>jsonutil.hpp\<close>. The seconds \<open>time(NULL)\<close> returns and the offset of the local zone are
  arguments; so is what the file system knows of a path. The log file and the standard output are the
  state \<open>host\<close>.
\<close>

section \<open>Times and dates\<close>

definition nowtimeint :: "int \<Rightarrow> int \<Rightarrow> 32 word" where
  "nowtimeint off t = word_of_int (mktime off (localtime off t))"

text \<open>\<open>sprintf\<close> into \<open>char yestDt[11]\<close>.\<close>

definition yesterdayYYMMDD :: "int \<Rightarrow> int \<Rightarrow> string outcome" where
  "yesterdayYYMMDD off t =
     (let tm = localtime off (t - 24 * 60 * 60);
          s = padded 4 (tm_year tm + 1900) @ padded 2 (tm_mon tm + 1) @ padded 2 (tm_mday tm)
      in if length s + 1 \<le> 11 then Inr s else Inl Out_of_bounds_write)"

text \<open>\<open>struct tm time\<close> is uninitialised; \<open>strptime\<close> sets its fields as far as it gets.\<close>

definition string2timeint :: "string \<Rightarrow> 32 word outcome" where
  "string2timeint timestr =
     (case strptime (c_str timestr) of
        None \<Rightarrow> Inl Uninitialised_read
      | Some tm \<Rightarrow> Inr (word_of_int (timegm tm)))"

definition nowDateString :: "int \<Rightarrow> int \<Rightarrow> string outcome" where
  "nowDateString off t = strftime 11 (date_text (localtime off t))"

definition getTimeString :: "int \<Rightarrow> int \<Rightarrow> string outcome" where
  "getTimeString off stime = strftime 28 (time_text (localtime off stime))"

definition uptime_string :: "int \<Rightarrow> int \<Rightarrow> string outcome" where
  "uptime_string off t = strftime 28 (time_text (localtime off t))"

text \<open>
  \<open>FormatTime\<close> of \<open>connection.cpp\<close>, which nothing calls: the locale, and with it the format, is a static
  object, made at the first call and kept. \<open>facet\<close> is how Boost prints a time with a format.
\<close>

definition FormatTime :: "(string \<Rightarrow> int \<Rightarrow> string) \<Rightarrow> string option \<Rightarrow> string \<Rightarrow> int \<Rightarrow> string \<times> string option" where
  "FormatTime facet loc fmt t =
     (let kept = (case loc of None \<Rightarrow> c_str fmt | Some f \<Rightarrow> f) in (facet kept t, Some kept))"

lemma FormatTime_first_format:
  "FormatTime facet loc fmt t = (text, loc') \<Longrightarrow> fst (FormatTime facet loc' fmt' t) = text"
  by (auto simp: FormatTime_def Let_def)

section \<open>The log\<close>

text \<open>The log file is \<open>None\<close> when it cannot be opened for appending.\<close>

record host =
  log_file :: "string option"
  stdout :: string

definition CONFIG_LOG_FILE :: string where
  "CONFIG_LOG_FILE = ''/var/log/as_proxyd.log''"

text \<open>\<open>vsnprintf(szStr, MAX_PER_LOG_TATALL - 1, ...)\<close> stores at most 510 characters and a zero; \<open>msg\<close> is
  the whole expansion of the format. \<open>fprintf\<close> and \<open>fclose\<close> get what \<open>fopen\<close> returned, unchecked.\<close>

definition MAX_PER_LOG_TATALL :: nat where
  "MAX_PER_LOG_TATALL = 512"

definition WriteLogFile :: "int \<Rightarrow> int \<Rightarrow> string \<Rightarrow> host \<Rightarrow> host outcome" where
  "WriteLogFile off t msg h =
     (case strftime 80 (time_text (localtime off t)) of
        Inl e \<Rightarrow> Inl e
      | Inr buffer \<Rightarrow>
          (let szStr = c_str (take (MAX_PER_LOG_TATALL - 1 - 1) msg);
               line = buffer @ [CHR 0x09] @ szStr @ [CHR 0x0A]
           in case log_file h of
                None \<Rightarrow> Inl Null_dereference
              | Some old \<Rightarrow> Inr (h\<lparr>log_file := Some (old @ line), stdout := stdout h @ line\<rparr>)))"

text \<open>The expansion of \<open>"%-40s : %s"\<close>.\<close>

definition log_pair :: "string \<Rightarrow> string \<Rightarrow> string" where
  "log_pair name value = name @ replicate (40 - length name) (CHR '' '') @ '' : '' @ value"

text \<open>\<open>map_dump\<close> prints the entries in the order of the keys; \<open>entries\<close> lists them in it.\<close>

fun map_dump :: "(string \<times> string) list \<Rightarrow> host \<Rightarrow> host" where
  "map_dump [] h = h"
| "map_dump ((key, val) # entries) h =
     map_dump entries
       (h\<lparr>stdout := stdout h @ ''===== key : '' @ c_str key @ '', value = '' @ c_str val @ [CHR 0x0A]\<rparr>)"

section \<open>Files\<close>

text \<open>\<open>mtimes\<close> gives the time of the last write of each path that exists. \<open>None\<close> as a result is the
  exception \<open>last_write_time\<close> throws.\<close>

definition getFileTime :: "(string \<rightharpoonup> int) \<Rightarrow> string \<Rightarrow> int" where
  "getFileTime mtimes filename =
     (case mtimes (c_str filename) of Some t \<Rightarrow> t | None \<Rightarrow> 0)"

definition getLastWriteTime :: "(string \<rightharpoonup> int) \<Rightarrow> string \<Rightarrow> string \<Rightarrow> int option" where
  "getLastWriteTime mtimes sPath sFileName = mtimes (sPath @ ''/'' @ sFileName)"

fun glob_loop :: "string list \<Rightarrow> string list \<Rightarrow> string list" where
  "glob_loop files [] = files"
| "glob_loop files (p # ps) = glob_loop (files @ [p]) ps"

text \<open>\<open>gl\<close> is \<open>glob\<close> with \<open>GLOB_TILDE\<close>: the paths that match a pattern.\<close>

definition globVector :: "(string \<Rightarrow> string list) \<Rightarrow> string \<Rightarrow> string list" where
  "globVector gl pattern = glob_loop [] (gl (c_str pattern))"

text \<open>A file that cannot be opened reads as the empty text; the text is also printed.\<close>

definition getFileText :: "(string \<rightharpoonup> string) \<Rightarrow> string \<Rightarrow> host \<Rightarrow> string \<times> host" where
  "getFileText files sFile h =
     (let str = (case files (c_str sFile) of Some s \<Rightarrow> s | None \<Rightarrow> [])
      in (str, h\<lparr>stdout := stdout h @ str @ [CHR 0x0A]\<rparr>))"

section \<open>Lemmas\<close>

lemma globVector_all: "globVector gl p = gl (c_str p)"
proof -
  have "glob_loop files ps = files @ ps" for files ps
    by (induction files ps rule: glob_loop.induct) simp_all
  then show ?thesis by (simp add: globVector_def)
qed

lemma nowtimeint_clock: "nowtimeint off t = word_of_int t"
  by (simp add: nowtimeint_def)

lemma length_padded_2: "0 \<le> n \<Longrightarrow> n \<le> 99 \<Longrightarrow> length (padded 2 n) = 2"
  by (simp add: padded_2)

lemma length_date_text:
  assumes "valid_tm tm"
  shows "length (date_text tm) = length (padded 1 (tm_year tm + 1900)) + 6"
  using assms by (simp add: date_text_def length_padded_2 valid_tm_def)

lemma length_time_text:
  assumes "valid_tm tm"
  shows "length (time_text tm) = length (padded 1 (tm_year tm + 1900)) + 15"
  using assms by (simp add: time_text_def length_date_text length_padded_2 valid_tm_def)

lemma length_year:
  assumes "1000 \<le> y" and "y \<le> 9999"
  shows "length (padded 1 y) = 4" "padded 4 y = padded 1 y"
proof -
  let ?n = "nat y"
  have b: "1000 \<le> ?n" "?n \<le> 9999" using assms by auto
  have r: "\<not> ?n < 10" "\<not> ?n div 10 < 10" "\<not> ?n div 100 < 10" "?n div 1000 < 10"
    using b by linarith+
  then have "length (dec_string ?n) = 4"
    by (simp add: dec_string.simps [of ?n] dec_string.simps [of "?n div 10"] dec_string.simps [of "?n div 100"]
        dec_string.simps [of "?n div 1000"] flip: div_mult2_eq)
  then show "length (padded 1 y) = 4" "padded 4 y = padded 1 y"
    using assms by (simp_all add: padded_def)
qed

lemma time_text_plain:
  assumes "valid_tm tm" and "1000 \<le> tm_year tm + 1900" and "tm_year tm + 1900 \<le> 9999"
  shows "c_str (time_text tm) = time_text tm"
proof -
  have dig: "CHR 0x00 \<notin> set (padded w n)" for w n
  proof -
    have "CHR 0x00 \<notin> set (dec_string k)" for k
      using dec_string_digits [of k] by (auto simp: isdigit_def)
    then show ?thesis by (auto simp: padded_def Let_def)
  qed
  show ?thesis by (rule c_str_plain) (simp add: time_text_def date_text_def dig)
qed

lemma string2timeint_time_text:
  assumes "1000 \<le> tm_year (gmtime t) + 1900" and "tm_year (gmtime t) + 1900 \<le> 9999"
  shows "string2timeint (time_text (gmtime t)) = Inr (word_of_int t)"
  using strptime_time_text [OF gmtime_facts(1) assms] time_text_plain [OF gmtime_facts(1) assms]
  by (simp add: string2timeint_def gmtime_facts)

lemma WriteLogFile_writes:
  assumes "log_file h = Some old" and "length (padded 1 (tm_year (localtime off t) + 1900)) \<le> 64"
  shows "\<exists>line. WriteLogFile off t msg h = Inr (h\<lparr>log_file := Some (old @ line), stdout := stdout h @ line\<rparr>) \<and>
    line = time_text (localtime off t) @ [CHR 0x09] @ c_str (take 510 msg) @ [CHR 0x0A]"
  using assms gmtime_facts(1) [of "t + off"]
  by (simp add: WriteLogFile_def strftime_def length_time_text localtime_def MAX_PER_LOG_TATALL_def Let_def)

lemma WriteLogFile_unwritable:
  assumes "log_file h = None" and "length (padded 1 (tm_year (localtime off t) + 1900)) \<le> 64"
  shows "WriteLogFile off t msg h = Inl Null_dereference"
  using assms gmtime_facts(1) [of "t + off"]
  by (simp add: WriteLogFile_def strftime_def length_time_text localtime_def MAX_PER_LOG_TATALL_def Let_def)

section \<open>Properties\<close>

text \<open>
  C27: a time printed with \<open>getTimeString\<close> and read with \<open>string2timeint\<close> comes back shifted by the
  offset of the local zone, in 32 bits: one prints the local time and the other reads it as UTC. In a
  zone without offset, and before 2038, this is the time itself.
\<close>

theorem time_string_roundtrip:
  assumes "1000 \<le> tm_year (localtime off t) + 1900" and "tm_year (localtime off t) + 1900 \<le> 9999"
  shows "\<exists>text. getTimeString off t = Inr text \<and> length text = 19 \<and>
    string2timeint text = Inr (word_of_int (t + off))"
  using string2timeint_time_text [of "t + off"] length_time_text [OF gmtime_facts(1), of "t + off"]
    length_year(1) [OF assms] assms
  by (simp add: getTimeString_def strftime_def localtime_def)

lemma time_string_roundtrip_witness:
  "\<exists>text. getTimeString 32400 0 = Inr text \<and> string2timeint text = Inr 32400"
proof -
  have "gmtime 32400 = \<lparr>tm_year = 70, tm_mon = 0, tm_mday = 1, tm_hour = 9, tm_min = 0, tm_sec = 0\<rparr>"
    by (simp add: gmtime_def find_year.simps [of 1970 0] year_days_def month_days_def)
  then show ?thesis
    using time_string_roundtrip [of 32400 0] by (auto simp: localtime_def)
qed

end
