(* ===== verification/Main_Boot.thy ===== *)
theory Main_Boot
  imports Server Util_System
begin

text \<open>
  \<open>src/main.cpp\<close> with its log: \<open>main\<close> from its start to \<open>s.run()\<close>, \<open>run\<close> up to the joins, and what
  \<open>main\<close> does when the threads have ended. Whether the server's constructor can listen on an address is
  an argument; the constructor throws when it cannot, and \<open>main\<close> catches the exception. \<open>log_time\<close> gives
  the time of each line of the log. \<open>main_start\<close> of \<open>Main_Config\<close> is the same without the log and
  the address.
\<close>

fun write_logs :: "int \<Rightarrow> (int \<times> string) list \<Rightarrow> host \<Rightarrow> host outcome" where
  "write_logs off [] h = Inr h"
| "write_logs off ((t, msg) # ls) h =
     (case WriteLogFile off t msg h of Inl e \<Rightarrow> Inl e | Inr h' \<Rightarrow> write_logs off ls h')"

definition separator :: string where
  "separator = replicate 50 (CHR ''='')"

definition main_boot ::
  "boost \<Rightarrow> int \<Rightarrow> (nat \<Rightarrow> int) \<Rightarrow> (string \<Rightarrow> int \<Rightarrow> bool) \<Rightarrow> string \<Rightarrow> string option \<Rightarrow>
     (string \<rightharpoonup> string option) \<Rightarrow> host \<Rightarrow> (host \<times> 't started option) outcome" where
  "main_boot B off log_time listens version target files h =
     (case read_exe target of
        Inl e \<Rightarrow> Inl e
      | Inr path \<Rightarrow>
          (case root_path path of
             None \<Rightarrow> Inr (h, None)
           | Some dir \<Rightarrow>
               (let config_file = dir @ CONFIG_FILE
                in case files config_file of
                   None \<Rightarrow>
                     (case write_logs off [(log_time 0, ''[ERROR] check config file path '' @ c_str config_file)] h of
                        Inl e \<Rightarrow> Inl e | Inr h1 \<Rightarrow> Inr (h1, Some (Exit 1)))
                 | Some contents \<Rightarrow>
                     (case write_logs off [(log_time 0, separator), (log_time 1, log_pair ''as_proxyd version'' version)] h of
                        Inl e \<Rightarrow> Inl e
                      | Inr h1 \<Rightarrow>
                          (let reader = INIReader contents
                           in if ParseError reader < 0 then
                                (case write_logs off [(log_time 2, log_pair (''Can'' @ [CHR 0x27] @ ''t load'') (c_str config_file))] h1 of
                                   Inl e \<Rightarrow> Inl e | Inr h2 \<Rightarrow> Inr (h2, Some (Exit 1)))
                              else
                                (case write_logs off [(log_time 2, log_pair ''load config file'' (c_str config_file))] h1 of
                                   Inl e \<Rightarrow> Inl e
                                 | Inr h2 \<Rightarrow>
                                     (let st = read_settings B reader
                                      in if listens (set_host st) (set_port st) then
                                           (case write_logs off [(log_time 3, log_pair ''Starting..........'' ''OK'')] h2 of
                                              Inl e \<Rightarrow> Inl e | Inr h3 \<Rightarrow> Inr (h3, Some (Start st)))
                                         else Inr (h2, Some (Exit 0)))))))))"

text \<open>\<open>run\<close> with its log line, and the end of \<open>main\<close>.\<close>

definition run_logged ::
  "'w aerospike \<Rightarrow> 't list \<Rightarrow> 't list \<Rightarrow> int \<Rightarrow> int \<Rightarrow> 't server \<Rightarrow> 'w \<Rightarrow> host \<Rightarrow> ('t server \<times> 'w \<times> host) outcome" where
  "run_logged A ids order off t s w h =
     (let (s', w') = run A ids order s w
      in case WriteLogFile off t (log_pair ''Started..........'' ''OK'') h of
           Inl e \<Rightarrow> Inl e | Inr h' \<Rightarrow> Inr (s', w', h'))"

definition main_end ::
  "'w aerospike \<Rightarrow> 't list \<Rightarrow> int \<Rightarrow> int \<Rightarrow> 't server \<Rightarrow> 'w \<Rightarrow> host \<Rightarrow> (int \<times> 'w \<times> host) outcome" where
  "main_end A order off t s w h =
     (let w' = AS_CONTROL_delete A order (asOP s) w
      in case WriteLogFile off t (log_pair ''Stop..........'' ''OK'' @ [CHR 0x0A]) h of
           Inl e \<Rightarrow> Inl e | Inr h' \<Rightarrow> Inr (0, w', h'))"

section \<open>Lemmas\<close>

text \<open>Years a date of up to 64 characters can hold.\<close>

definition printable_year :: "int \<Rightarrow> int \<Rightarrow> bool" where
  "printable_year off t \<longleftrightarrow> length (padded 1 (tm_year (localtime off t) + 1900)) \<le> 64"

lemma write_logs_writes:
  assumes "log_file h = Some old" and "\<forall>(t, m) \<in> set ls. printable_year off t"
  shows "\<exists>lines. write_logs off ls h = Inr (h\<lparr>log_file := Some (old @ lines), stdout := stdout h @ lines\<rparr>)"
  using assms
proof (induction ls arbitrary: h old)
  case Nil
  then show ?case by (intro exI [of _ "[]"]) simp
next
  case (Cons l ls)
  obtain t m where l: "l = (t, m)" by (cases l)
  obtain line where w: "WriteLogFile off t m h = Inr (h\<lparr>log_file := Some (old @ line), stdout := stdout h @ line\<rparr>)"
    using WriteLogFile_writes [OF Cons.prems(1), of off t m] Cons.prems(2) by (auto simp: l printable_year_def)
  show ?case
    using Cons.IH [of "h\<lparr>log_file := Some (old @ line), stdout := stdout h @ line\<rparr>" "old @ line"] Cons.prems(2)
    by (fastforce simp: l w)
qed

lemma write_logs_unwritable:
  assumes "log_file h = None" and "printable_year off t"
  shows "write_logs off ((t, m) # ls) h = Inl Null_dereference"
  using WriteLogFile_unwritable [OF assms(1), of off t m] assms(2) by (simp add: printable_year_def)

lemma write_logs_log_file:
  assumes "write_logs off ls h = Inr h'" and "log_file h = Some old"
  shows "\<exists>lines. log_file h' = Some (old @ lines)"
  using assms
proof (induction ls arbitrary: h old)
  case Nil
  then show ?case by (intro exI [of _ "[]"]) simp
next
  case (Cons l ls)
  then show ?case
    by (cases l) (fastforce simp: WriteLogFile_def Let_def split: sum.splits option.splits)
qed

definition checked :: "(string \<Rightarrow> int \<Rightarrow> bool) \<Rightarrow> 't started \<Rightarrow> 't started" where
  "checked listens st =
     (case st of
        Exit n \<Rightarrow> Exit n
      | Start x \<Rightarrow> if listens (set_host x) (set_port x) then Start x else Exit 0)"

lemma write_logs_at:
  assumes "\<And>i. printable_year off (log_time i)" and "log_file g = Some o1"
  shows "\<exists>h' lines. write_logs off (map (\<lambda>(i, m). (log_time i, m)) ls) g = Inr h' \<and> log_file h' = Some (o1 @ lines)"
proof -
  have "\<forall>(t, m) \<in> set (map (\<lambda>(i, m). (log_time i, m)) ls). printable_year off t" using assms(1) by auto
  then show ?thesis using write_logs_writes [OF assms(2)] by fastforce
qed

lemma main_boot_contents:
  assumes pr: "\<And>i. printable_year off (log_time i)" and Some: "log_file h = Some old"
    and path: "read_exe target = Inr path" "root_path path = Some dir" and contents: "files (dir @ CONFIG_FILE) = Some contents"
  shows "\<exists>h' lines. main_boot B off log_time listens version target files h =
      (case main_start B target files of
         Inl e \<Rightarrow> Inl e
       | Inr None \<Rightarrow> Inr (h, None)
       | Inr (Some st) \<Rightarrow>
           (case log_file h of
              None \<Rightarrow> Inl Null_dereference
            | Some old \<Rightarrow> Inr (h', Some (checked listens st)))) \<and>
    log_file h' = map_option (\<lambda>old. old @ lines) (log_file h)"
proof -
  let ?f = "dir @ CONFIG_FILE"
  obtain h1 ls1 where h1: "write_logs off [(log_time 0, separator), (log_time 1, log_pair ''as_proxyd version'' version)] h = Inr h1"
    "log_file h1 = Some (old @ ls1)"
    using write_logs_at [where log_time = log_time and ls = "[(0, separator), (1, log_pair ''as_proxyd version'' version)]", OF pr Some] by auto
  show ?thesis
  proof (cases "ParseError (INIReader contents) < 0")
    case True
    obtain h2 ls2 where h2: "write_logs off [(log_time 2, log_pair (''Can'' @ [CHR 0x27] @ ''t load'') (c_str ?f))] h1 = Inr h2"
      "log_file h2 = Some ((old @ ls1) @ ls2)"
      using write_logs_at [where log_time = log_time and ls = "[(2, log_pair (''Can'' @ [CHR 0x27] @ ''t load'') (c_str ?f))]", OF pr h1(2)] by auto
    show ?thesis
      using Some True h1(1) h2 by (intro exI [of _ h2] exI [of _ "ls1 @ ls2"])
        (simp add: main_boot_def main_start_def path contents checked_def del: write_logs.simps)
  next
    case False
    let ?st = "read_settings B (INIReader contents) :: 'a settings"
    obtain h2 ls2 where h2: "write_logs off [(log_time 2, log_pair ''load config file'' (c_str ?f))] h1 = Inr h2"
      "log_file h2 = Some ((old @ ls1) @ ls2)"
      using write_logs_at [where log_time = log_time and ls = "[(2, log_pair ''load config file'' (c_str ?f))]", OF pr h1(2)] by auto
    obtain h3 ls3 where h3: "write_logs off [(log_time 3, log_pair ''Starting..........'' ''OK'')] h2 = Inr h3"
      "log_file h3 = Some (((old @ ls1) @ ls2) @ ls3)"
      using write_logs_at [where log_time = log_time and ls = "[(3, log_pair ''Starting..........'' ''OK'')]", OF pr h2(2)] by auto
    show ?thesis
    proof (cases "listens (set_host ?st) (set_port ?st)")
      case True
      then show ?thesis
        using Some False h1(1) h2(1) h3 by (intro exI [of _ h3] exI [of _ "ls1 @ ls2 @ ls3"])
          (simp add: main_boot_def main_start_def path contents checked_def del: write_logs.simps)
    next
      case nl: False
      then show ?thesis
        using Some False h1(1) h2 by (intro exI [of _ h2] exI [of _ "ls1 @ ls2"])
          (simp add: main_boot_def main_start_def path contents checked_def del: write_logs.simps)
    qed
  qed
qed

lemma main_boot_writable:
  assumes "\<And>i. printable_year off (log_time i)" and Some: "log_file h = Some old"
  shows "\<exists>h' lines. main_boot B off log_time listens version target files h =
      (case main_start B target files of
         Inl e \<Rightarrow> Inl e
       | Inr None \<Rightarrow> Inr (h, None)
       | Inr (Some st) \<Rightarrow>
           (case log_file h of
              None \<Rightarrow> Inl Null_dereference
            | Some old \<Rightarrow> Inr (h', Some (checked listens st)))) \<and>
    log_file h' = map_option (\<lambda>old. old @ lines) (log_file h)"
proof -
  show ?thesis
  proof (cases "Option.bind (case read_exe target of Inl e \<Rightarrow> None | Inr path \<Rightarrow> root_path path) Some")
    case None
    with Some show ?thesis
      by (intro exI [of _ h] exI [of _ "[]"])
        (auto simp: main_boot_def main_start_def split: sum.splits option.splits)
  next
    case dir: (Some dir)
    then obtain path where path: "read_exe target = Inr path" "root_path path = Some dir"
      by (cases "read_exe target") auto
    let ?f = "dir @ CONFIG_FILE"
    show ?thesis
    proof (cases "files ?f")
      case None
      obtain h1 ls1 where "write_logs off [(log_time 0, ''[ERROR] check config file path '' @ c_str ?f)] h = Inr h1"
        "log_file h1 = Some (old @ ls1)"
        using write_logs_at [where log_time = log_time and ls = "[(0, ''[ERROR] check config file path '' @ c_str ?f)]", OF assms(1) Some] by auto
      then show ?thesis
        using Some by (intro exI [of _ h1] exI [of _ ls1])
          (simp add: main_boot_def main_start_def path None checked_def del: write_logs.simps)
    next
      case contents: (Some contents)
      show ?thesis by (rule main_boot_contents) (fact assms path contents)+
    qed
  qed
qed

section \<open>Properties\<close>

text \<open>
  C23: with its log \<open>main\<close> does what it does without, as long as the log file can be opened: it only
  appends lines to it. When the log file cannot be opened, as for a user without the right to write in
  \<open>/var/log\<close>, it runs into a null pointer before it starts the server, whatever the configuration is. A
  server that cannot listen ends the program with status 0.
\<close>

theorem main_boot_refines:
  assumes "\<And>i. printable_year off (log_time i)"
  shows "\<exists>h' lines. main_boot B off log_time listens version target files h =
      (case main_start B target files of
         Inl e \<Rightarrow> Inl e
       | Inr None \<Rightarrow> Inr (h, None)
       | Inr (Some st) \<Rightarrow>
           (case log_file h of
              None \<Rightarrow> Inl Null_dereference
            | Some old \<Rightarrow> Inr (h', Some (checked listens st)))) \<and>
    log_file h' = map_option (\<lambda>old. old @ lines) (log_file h)"
proof (cases "log_file h")
  case None
  note u = write_logs_unwritable [OF None assms]
  show ?thesis
    unfolding main_boot_def main_start_def Let_def u None
    by (intro exI [of _ h] exI [of _ "[]"]) (simp add: None split: sum.split option.split)
next
  case (Some old)
  then show ?thesis by (rule main_boot_writable [OF assms])
qed

lemma main_boot_refines_witness:
  "main_boot boost_ref 0 (\<lambda>i. 0) (\<lambda>a p. True) ''0.7.1'' (Some ''/opt/bin/as_proxyd'') Map.empty
     \<lparr>log_file = None, stdout = []\<rparr> = (Inl Null_dereference :: (host \<times> nat started option) outcome)"
proof -
  have "printable_year 0 0"
    by (simp add: printable_year_def localtime_def gmtime_def find_year.simps [of 1970 0] year_days_def month_days_def
        padded_def dec_eval)
  then show ?thesis
    using main_boot_refines [where ?'a = nat, of 0 "\<lambda>i. 0" boost_ref "\<lambda>a p. True" "''0.7.1''" "Some ''/opt/bin/as_proxyd''" Map.empty
        "\<lparr>log_file = None, stdout = []\<rparr>"]
    by (simp add: main_start_def read_exe_def root_path_def is_slash_def c_str_def)
qed

end
