(* ===== verification/Whole_Program.thy ===== *)
theory Whole_Program
  imports Boot_Run Main_Boot
begin

text \<open>
  \<open>main\<close> from its first line to its return: the start of \<open>Main_Boot\<close>, the threads, the loop of \<open>Initialize\<close>
  interleaved with the event loop (\<open>Boot_Run\<close>) until it is stopped, and the end. \<open>ids\<close> are the ids of the
  threads, \<open>order\<close> and \<open>order'\<close> list the keys of the tables of threads and of objects, \<open>fresh\<close> is the first
  connection object, \<open>evs\<close> the events.
\<close>

datatype 't process = Uncaught | Exited int | Ended int "'t proxy" | Serving "'t proxy"

text \<open>The number of threads: an \<open>int\<close> converted to \<open>size_t\<close>.\<close>

definition pool_size :: "'t settings \<Rightarrow> nat" where
  "pool_size st = unat (word_of_int (set_max_thread st) :: 64 word)"

text \<open>
  From the constructor of the server to \<open>delete asOP\<close>: \<open>run\<close> enters the threads in the table, goes through
  \<open>Initialize\<close>, writes its log line and joins; the joins return when the loop is stopped or there is no
  thread, and without threads no event is handled.
\<close>

definition serve_until_stop ::
  "('j, 'w, 'z) libs \<Rightarrow> int \<Rightarrow> (nat \<Rightarrow> int) \<Rightarrow> (nat \<Rightarrow> 't) \<Rightarrow> 't list \<Rightarrow> 't list \<Rightarrow> connection \<Rightarrow> 't boot_event list \<Rightarrow>
     't settings \<Rightarrow> host \<Rightarrow> 'w \<Rightarrow> ('t process \<times> 'w \<times> host) outcome" where
  "serve_until_stop L off log_time ids order order' fresh evs st h w =
     (let n = pool_size st;
          c = (set_control st)\<lparr>mthreadList := register_threads (map ids [0..<n]) 0 (mthreadList (set_control st))\<rparr>
      in case boot_run L (if n = 0 then [] else evs) (order, proxy_new c n fresh, w) of
           Inl e \<Rightarrow> Inl e
         | Inr (keys, p, w1) \<Rightarrow>
             if keys \<noteq> [] then Inr (Serving p, w1, h)
             else
               (case WriteLogFile off (log_time 4) (log_pair ''Started..........'' ''OK'') h of
                  Inl e \<Rightarrow> Inl e
                | Inr h1 \<Rightarrow>
                    if n \<noteq> 0 \<and> \<not> io_stopped (srv p) then Inr (Serving p, w1, h1)
                    else
                      (case main_end (lib_as L) order' off (log_time 5) (srv p) w1 h1 of
                         Inl e \<Rightarrow> Inl e
                       | Inr (code, w2, h2) \<Rightarrow> Inr (Ended code p, w2, h2))))"

definition main_program ::
  "('j, 'w, 'z) libs \<Rightarrow> int \<Rightarrow> (nat \<Rightarrow> int) \<Rightarrow> (string \<Rightarrow> int \<Rightarrow> bool) \<Rightarrow> string \<Rightarrow> string option \<Rightarrow>
     (string \<rightharpoonup> string option) \<Rightarrow> (nat \<Rightarrow> 't) \<Rightarrow> 't list \<Rightarrow> 't list \<Rightarrow> connection \<Rightarrow> 't boot_event list \<Rightarrow>
     host \<Rightarrow> 'w \<Rightarrow> ('t process \<times> 'w \<times> host) outcome" where
  "main_program L off log_time listens version target files ids order order' fresh evs h w =
     (case main_boot (lib_boost L) off log_time listens version target files h of
        Inl e \<Rightarrow> Inl e
      | Inr (h1, None) \<Rightarrow> Inr (Uncaught, w, h1)
      | Inr (h1, Some (Exit code)) \<Rightarrow> Inr (Exited code, w, h1)
      | Inr (h1, Some (Start st)) \<Rightarrow> serve_until_stop L off log_time ids order order' fresh evs st h1 w)"

section \<open>Lemmas\<close>

lemma pool_size_positive:
  assumes "0 \<le> set_max_thread st" and "set_max_thread st \<le> 2147483647"
  shows "pool_size st = nat (set_max_thread st)"
  using assms by (simp add: pool_size_def unat_eq_nat_uint uint_word_of_int_eq take_bit_eq_mod)

text \<open>The number is not checked: with zero the program ends at once, a negative one is near \<open>2\<^sup>6\<^sup>4\<close>.\<close>

lemma pool_size_zero: "set_max_thread st = 0 \<Longrightarrow> pool_size st = 0"
  by (simp add: pool_size_def)

lemma pool_size_negative:
  assumes "-2147483648 \<le> set_max_thread st" and "set_max_thread st < 0"
  shows "int (pool_size st) = 2 ^ 64 + set_max_thread st"
proof -
  have "set_max_thread st mod 2 ^ 64 = 2 ^ 64 + set_max_thread st"
    using assms by (intro mod_pos_pos_trivial [of "2 ^ 64 + set_max_thread st" "2 ^ 64", simplified] | simp)+
  then show ?thesis by (simp add: pool_size_def uint_word_of_int_eq take_bit_eq_mod flip: uint_nat)
qed

lemma WriteLogFile_appends:
  assumes "log_file h = Some old" and "printable_year off t"
  shows "\<exists>h' line. WriteLogFile off t msg h = Inr h' \<and> log_file h' = Some (old @ line)"
  using WriteLogFile_writes [OF assms(1), of off t msg] assms(2) by (auto simp: printable_year_def)

lemma main_boot_starts:
  fixes st :: "'t settings"
  assumes "main_start B target files = Inr (Some (Start st))" and "listens (set_host st) (set_port st)"
    and "log_file h = Some old" and "\<And>i. printable_year off (log_time i)"
  shows "\<exists>h' lines. main_boot B off log_time listens version target files h = Inr (h', Some (Start st)) \<and>
    log_file h' = Some (old @ lines)"
  using main_boot_writable [where ?'a = 't and B = B and log_time = log_time and listens = listens and version = version and target = target and files = files, OF assms(4,3)] assms(1-3) by (auto simp: checked_def)

lemma main_start_control:
  assumes "main_start B target files = Inr (Some (Start st))"
  shows "rAsList (set_control st) = Map.empty" "mthreadList (set_control st) = Map.empty"
    "set_max_thread st \<le> 2147483647"
proof -
  obtain r where "st = read_settings B r"
    using assms by (auto simp: main_start_def Let_def split: sum.splits option.splits if_splits)
  moreover have "int_of_long x \<le> 2147483647" for x
    by (simp add: int_of_long_def)
  ultimately show "rAsList (set_control st) = Map.empty" "mthreadList (set_control st) = Map.empty"
    "set_max_thread st \<le> 2147483647"
    by (simp_all add: read_settings_def AS_CONTROL_new_def Let_def)
qed


lemma serve_until_stop_runs:
  fixes st :: "'t settings" and ids :: "nat \<Rightarrow> 't"
  assumes libs: "boost_contract (lib_boost L)" "no_failures L"
    and destroy: "\<And>cfg w. destroyed (aerospike_destroy (lib_as L) cfg w) = destroyed w @ [cfg]"
      "\<And>cfg w. destroyed (snd (snd (aerospike_close (lib_as L) cfg w))) = destroyed w"
    and control: "rAsList (set_control st) = Map.empty"
    and threads: "0 < pool_size st" "T = ids ` {..<pool_size st}" "set order = T" "set order' = T"
      "\<forall>t i ev. Act (Completed t i ev) \<in> set evs \<longrightarrow> t \<in> T"
    and events: "length order \<le> length (filter (\<lambda>e. e = Enter) evs)" "Act Signalled \<in> set evs"
    and log: "log_file h = Some (old @ l0)" "\<And>i. printable_year off (log_time i)"
    and fresh: "fresh = connection_new a b x k"
  shows "case serve_until_stop L off log_time ids order order' fresh evs st h w of
      Inl e \<Rightarrow> e \<in> {Signed_overflow, Uninitialised_read}
    | Inr (res, w', h') \<Rightarrow>
        (\<exists>p w2 lines. res = Ended 0 p \<and> dom (objects_of p) = T \<and>
           (\<forall>i. (\<forall>out \<in> set (sent p i). int (length out) \<le> 2147483647) \<longrightarrow>
              (\<exists>rs. read_replies (length (sent p i)) (concat (sent p i)) = Some (rs, []))) \<and>
           destroyed w' = destroyed w2 @ map (\<lambda>t. as_cfg (the (objects_of p t))) order' \<and>
           log_file h' = Some (old @ lines))"
proof -
  let ?n = "pool_size st" and ?A = "lib_as L"
  let ?c = "(set_control st)\<lparr>mthreadList := register_threads (map ids [0..<?n]) 0 (mthreadList (set_control st))\<rparr>"
  let ?p0 = "proxy_new ?c ?n fresh"
  have inv: "proxy_inv ?p0" unfolding fresh by (rule proxy_inv_new)
  have p0: "dom (objects_of ?p0) = {}" "sent ?p0 i = []" for i
    using control by (simp_all add: proxy_new_def server_new_def start_accept_def objects_of_def Let_def)
  show ?thesis
  proof (cases "boot_run L evs (order, ?p0, w)")
    case (Inl e)
    then have "e \<in> {Signed_overflow, Uninitialised_read}" by (rule boot_fault [OF libs(2) inv])
    then show ?thesis using threads(1) Inl by (simp add: serve_until_stop_def Let_def)
  next
    case (Inr r)
    obtain keys p w2 where r: "boot_run L evs (order, ?p0, w) = Inr (keys, p, w2)" using Inr by (cases r) simp
    have stop: "io_stopped (srv p)" by (rule boot_stops [OF inv events(2) r])
    have keys: "keys = []" and pool1: "T \<subseteq> dom (objects_of p)"
      using boot_pool [OF r] events(1) threads(3) by auto
    have "t \<in> T" if "Act b \<in> set evs" "runs_on t b" for t b
      using runs_on_Completed [OF that(2)] that(1) threads(5) by blast
    then have pool: "dom (objects_of p) = T"
      using boot_pool [OF r] pool1 threads(3) p0(1) by blast
    have replies: "\<exists>rs. read_replies (length (sent p i)) (concat (sent p i)) = Some (rs, [])"
      if "\<forall>out \<in> set (sent p i). int (length out) \<le> 2147483647" for i
    proof -
      have "\<forall>out \<in> set (sent p i). framed out" by (rule boot_framed [OF libs(1) r _ that]) (simp add: p0(2))
      then show ?thesis using read_replies_framed by blast
    qed
    obtain h1 l1 where h1: "WriteLogFile off (log_time 4) (log_pair ''Started..........'' ''OK'') h = Inr h1"
      "log_file h1 = Some ((old @ l0) @ l1)"
      using WriteLogFile_appends [OF log] by blast
    obtain h2 l2 where h2: "WriteLogFile off (log_time 5) (log_pair ''Stop..........'' ''OK'' @ [CHR 0x0A]) h1 = Inr h2"
      "log_file h2 = Some (((old @ l0) @ l1) @ l2)"
      using WriteLogFile_appends [OF h1(2) log(2)] by blast
    have del: "destroyed (AS_CONTROL_delete ?A order' (asOP (srv p)) w2) =
        destroyed w2 @ map (\<lambda>t. as_cfg (the (objects_of p t))) order'"
      unfolding objects_of_def
      by (rule AS_CONTROL_delete_destroys [OF destroy]) (use pool threads(4) in \<open>simp add: objects_of_def\<close>)
    have "serve_until_stop L off log_time ids order order' fresh evs st h w =
        Inr (Ended 0 p, AS_CONTROL_delete ?A order' (asOP (srv p)) w2, h2)"
      using threads(1) r keys h1(1) stop h2(1) by (simp add: serve_until_stop_def main_end_def Let_def)
    then show ?thesis using pool replies del h2(2) by simp blast
  qed
qed

text \<open>With \<open>Initialize\<close> before everything else, this is \<open>run_logged\<close>, the event loop and \<open>main_end\<close>.\<close>

lemma serve_after_initialize:
  assumes "0 < pool_size st" and "log_file h = Some old" and "printable_year off (log_time 4)"
  shows "serve_until_stop L off log_time ids order order' fresh (replicate (length order) Enter @ map Act acts) st h w =
    (let p0 = proxy_new (set_control st) (pool_size st) fresh
     in case run_logged (lib_as L) (map ids [0..<pool_size st]) order off (log_time 4) (srv p0) w h of
          Inl e \<Rightarrow> Inl e
        | Inr (s1, w1, h1) \<Rightarrow>
            (case proxy_run L acts (p0\<lparr>srv := s1\<rparr>) w1 of
               Inl e \<Rightarrow> Inl e
             | Inr (p, w2) \<Rightarrow>
                 if \<not> io_stopped (srv p) then Inr (Serving p, w2, h1)
                 else
                   (case main_end (lib_as L) order' off (log_time 5) (srv p) w2 h1 of
                      Inl e \<Rightarrow> Inl e
                    | Inr (code, w3, h2) \<Rightarrow> Inr (Ended code p, w3, h2))))"
proof -
  let ?n = "pool_size st"
  let ?c = "(set_control st)\<lparr>mthreadList := register_threads (map ids [0..<?n]) 0 (mthreadList (set_control st))\<rparr>"
  obtain h1 where h1: "WriteLogFile off (log_time 4) (log_pair ''Started..........'' ''OK'') h = Inr h1"
    using WriteLogFile_appends [OF assms(2,3)] by blast
  obtain c1 w1 where i: "Initialize (lib_as L) order ?c w = (c1, w1)" by fastforce
  have s: "asOP (srv (proxy_new c ?n fresh)) = c" for c
    by (simp add: proxy_new_def server_new_def start_accept_def Let_def)
  let ?s1 = "(srv (proxy_new (set_control st) ?n fresh))\<lparr>asOP := c1\<rparr>"
  have p: "(proxy_new ?c ?n fresh)\<lparr>srv := (srv (proxy_new ?c ?n fresh))\<lparr>asOP := c1\<rparr>\<rparr> =
      (proxy_new (set_control st) ?n fresh)\<lparr>srv := ?s1\<rparr>"
    by (simp add: proxy_new_def server_new_def start_accept_def Let_def)
  have b: "boot_run L (replicate (length order) Enter @ map Act acts) (order, proxy_new ?c ?n fresh, w) =
      (case proxy_run L acts ((proxy_new (set_control st) ?n fresh)\<lparr>srv := ?s1\<rparr>) w1 of
         Inl u \<Rightarrow> Inl u | Inr r \<Rightarrow> Inr ([], r))"
    unfolding boot_run_append boot_run_first s i p [symmetric] by (simp add: boot_run_acts)
  have r: "run (lib_as L) (map ids [0..<?n]) order (srv (proxy_new (set_control st) ?n fresh)) w = (?s1, w1)"
    using i by (simp add: run_def s)
  have n: "\<not> pool_size st = 0" using assms(1) by simp
  show ?thesis
    unfolding serve_until_stop_def run_logged_def Let_def if_not_P [OF n] b r
    by (cases "proxy_run L acts ((proxy_new (set_control st) ?n fresh)\<lparr>srv := ?s1\<rparr>) w1") (auto simp: h1 n)
qed

section \<open>Properties\<close>


text \<open>For the witness: a database without records, whose world is the list of the handles destroyed.\<close>

definition logging_store :: "as_config list aerospike" where
  "logging_store =
     \<lparr>AEROSPIKE_OK = 0, AEROSPIKE_ERR = 100, AEROSPIKE_ERR_PARAM = 4, AEROSPIKE_ERR_CLIENT = -1,
      AEROSPIKE_ERR_QUERY = 213, AEROSPIKE_ERR_TIMEOUT = 9, AEROSPIKE_ERR_CLUSTER_CHANGE = 7,
      AEROSPIKE_ERR_CLUSTER = 11, AEROSPIKE_ERR_INVALID_HOST = -4,
      as_config_init = as_config_init cell_store, as_config_add_host = as_config_add_host cell_store,
      as_policies_init = as_policies_init cell_store, random_shuffle = (\<lambda>xs w. (xs, w)),
      aerospike_connect = (\<lambda>c w. (0, 0, w)),
      aerospike_key_get = (\<lambda>c k w. (2, 2, \<lparr>bins = [], gen = 0, ttl = 0\<rparr>, w)),
      aerospike_key_put = (\<lambda>c k r w. (0, 0, w)), aerospike_key_remove = (\<lambda>c k w. (0, 0, w)),
      as_record_set = as_record_set cell_store, as_error_string = as_error_string cell_store,
      aerospike_close = (\<lambda>c w. (0, 0, w)), aerospike_destroy = (\<lambda>c w. w @ [c])\<rparr>"

definition logging_libs :: "(jref, as_config list, unit) libs" where
  "logging_libs =
     \<lparr>lib_boost = boost_ref, lib_json = jref_lib, lib_as = logging_store, lib_zlib = no_zlib,
      lib_realloc = (\<lambda>n. True), lib_rounding = id, lib_clock = (\<lambda>w. (\<lparr>tv_sec = 0, tv_usec = 0\<rparr>, w))\<rparr>"

lemma logging_libs_facts:
  "boost_contract (lib_boost logging_libs)" "no_failures logging_libs"
  "aerospike_destroy (lib_as logging_libs) cfg w = w @ [cfg]"
  "snd (snd (aerospike_close (lib_as logging_libs) cfg w)) = w"
  using boost_ref_contract
  by (simp_all add: logging_libs_def logging_store_def no_failures_def gets_terminated_def jref_lib_def)

definition default_settings :: "nat settings" where
  "default_settings = read_settings boost_ref (INIReader (Some []))"

lemma default_start:
  "main_start boost_ref (Some ''/opt/bin/as_proxyd'') [''/opt/bin/../conf/config.ini'' \<mapsto> Some []] =
     Inr (Some (Start default_settings))"
  "set_max_thread default_settings = 8"
  by (simp_all add: main_start_def read_exe_def root_path_def is_slash_def c_str_def CONFIG_FILE_def default_settings_def
      INIReader_def ini_parse_def ini_parse_file_def ini_loop.simps ParseError_def read_settings_def Let_def GetInteger_def
      Get_def ini_start_def strtol_def int_of_long_def strip_sign_def strtol_base_def)

text \<open>The program with eight threads and a signal as the only event.\<close>

definition default_run :: "(nat process \<times> as_config list \<times> host) outcome" where
  "default_run = main_program logging_libs 0 (\<lambda>i. 0) (\<lambda>a p. True) ''0.7.1'' (Some ''/opt/bin/as_proxyd'')
     [''/opt/bin/../conf/config.ini'' \<mapsto> Some []] id [0..<8] [0..<8] (connection_new 0 0 Ok 0) (replicate (length [0..<8]) Enter @ map Act [Signalled])
     \<lparr>log_file = Some [], stdout = []\<rparr> []"

lemma printable_epoch: "printable_year 0 0"
  by (simp add: printable_year_def localtime_def gmtime_def find_year.simps [of 1970 0] year_days_def month_days_def
      padded_def dec_eval)

lemma default_run_ends: "\<exists>res. default_run = Inr res"
proof -
  let ?A = "lib_as logging_libs" and ?h = "\<lparr>log_file = Some [], stdout = []\<rparr>" and ?st = default_settings
  let ?p0 = "proxy_new (set_control ?st) 8 (connection_new 0 0 Ok 0)"
  have B: "lib_boost logging_libs = boost_ref" by (simp add: logging_libs_def)
  obtain h1 l1 where b: "main_boot boost_ref 0 (\<lambda>i. 0) (\<lambda>a p. True) ''0.7.1'' (Some ''/opt/bin/as_proxyd'')
      [''/opt/bin/../conf/config.ini'' \<mapsto> Some []] ?h = Inr (h1, Some (Start ?st))" "log_file h1 = Some ([] @ l1)"
    using main_boot_starts [where log_time = "\<lambda>i. 0" and h = ?h and listens = "\<lambda>a p. True", OF default_start(1)] printable_epoch
    by fastforce
  have n: "pool_size ?st = 8" using pool_size_positive [of ?st] default_start(2) by simp
  obtain s1 w1 where run: "run ?A (map id [0..<8]) [0..<8] (srv ?p0) [] = (s1, w1)" by fastforce
  obtain h2 l2 where h2: "WriteLogFile 0 0 (log_pair ''Started..........'' ''OK'') h1 = Inr h2" "log_file h2 = Some (([] @ l1) @ l2)"
    using WriteLogFile_appends [OF b(2) printable_epoch] by blast
  obtain p w2 where r: "proxy_run logging_libs [Signalled] (?p0\<lparr>srv := s1\<rparr>) w1 = Inr (p, w2)" by fastforce
  obtain h3 l3 where h3: "WriteLogFile 0 0 (log_pair ''Stop..........'' ''OK'' @ [CHR 0x0A]) h2 = Inr h3"
    using WriteLogFile_appends [OF h2(2) printable_epoch] by blast
  have l: "run_logged ?A (map id [0..<8]) [0..<8] 0 0 (srv ?p0) [] h1 = Inr (s1, w1, h2)"
    using run h2(1) by (simp add: run_logged_def)
  have "default_run = serve_until_stop logging_libs 0 (\<lambda>i. 0) id [0..<8] [0..<8] (connection_new 0 0 Ok 0)
      (replicate (length [0..<8]) Enter @ map Act [Signalled]) ?st h1 []"
    unfolding default_run_def main_program_def B b(1) by simp
  also have "\<exists>res. \<dots> = Inr res"
    using serve_after_initialize [of ?st h1 _ 0 "\<lambda>i. 0" logging_libs id "[0..<8]" "[0..<8]" "connection_new 0 0 Ok 0" "[Signalled]" "[]"]
      n b(2) printable_epoch l r h3
    by (simp add: main_end_def Let_def del: proxy_run.simps)
  finally show ?thesis .
qed


end
