(* ===== verification/Pool_Race.thy ===== *)
theory Pool_Race
  imports As_Control
begin

text \<open>
  The main thread in \<open>Initialize\<close> and the threads of the pool in \<open>GetAsObject\<close>, at the same time: \<open>run\<close>
  starts the threads before it calls \<open>Initialize\<close>, and each looks up its entry and, if it is
  absent, stores a new object in a second step, with no lock around the two. An object is named by its
  number; \<open>made\<close> lists the threads the objects were made for, the newest first. What a concurrent
  insertion does inside the hash table is left out: every step is taken to be atomic, which favours
  the program.
\<close>

datatype worker = Counting | Storing

record 't race =
  entries :: "'t \<rightharpoonup> nat"
  made :: "'t list"
  workers :: "'t \<Rightarrow> worker"
  todo :: "'t list"
  main_storing :: bool

definition race_start :: "'t list \<Rightarrow> 't race" where
  "race_start order =
     \<lparr>entries = Map.empty, made = [], workers = (\<lambda>t. Counting), todo = order, main_storing = False\<rparr>"

definition store_object :: "'t \<Rightarrow> 't race \<Rightarrow> 't race" where
  "store_object t s = s\<lparr>entries := (entries s)(t \<mapsto> length (made s)), made := t # made s\<rparr>"

text \<open>A worker that finds its entry changes nothing, so it needs no step.\<close>

inductive race_step :: "'t set \<Rightarrow> 't race \<Rightarrow> 't race \<Rightarrow> bool" for T where
  worker_absent:
    "t \<in> T \<Longrightarrow> workers s t = Counting \<Longrightarrow> entries s t = None \<Longrightarrow>
       race_step T s (s\<lparr>workers := (workers s)(t := Storing)\<rparr>)"
| worker_store:
    "t \<in> T \<Longrightarrow> workers s t = Storing \<Longrightarrow>
       race_step T s (store_object t (s\<lparr>workers := (workers s)(t := Counting)\<rparr>))"
| main_present:
    "todo s = t # ts \<Longrightarrow> \<not> main_storing s \<Longrightarrow> entries s t \<noteq> None \<Longrightarrow> race_step T s (s\<lparr>todo := ts\<rparr>)"
| main_absent:
    "todo s = t # ts \<Longrightarrow> \<not> main_storing s \<Longrightarrow> entries s t = None \<Longrightarrow>
       race_step T s (s\<lparr>main_storing := True\<rparr>)"
| main_store:
    "todo s = t # ts \<Longrightarrow> main_storing s \<Longrightarrow>
       race_step T s (store_object t (s\<lparr>todo := ts, main_storing := False\<rparr>))"

definition race_over :: "'t race \<Rightarrow> bool" where
  "race_over s \<longleftrightarrow> todo s = [] \<and> (\<forall>t. workers s t = Counting)"

section \<open>At most two objects for a thread\<close>

text \<open>The objects made for a thread and about to be made for it.\<close>

definition pending_for :: "'t race \<Rightarrow> 't \<Rightarrow> nat" where
  "pending_for s t =
     (if workers s t = Storing then 1 else 0) + (if main_storing s \<and> todo s \<noteq> [] \<and> hd (todo s) = t then 1 else 0)"

definition race_inv :: "'t list \<Rightarrow> 't race \<Rightarrow> bool" where
  "race_inv order s \<longleftrightarrow>
     (\<exists>past. order = past @ todo s \<and> set past \<subseteq> set (made s)) \<and>
     (main_storing s \<longrightarrow> todo s \<noteq> []) \<and>
     (\<forall>t. workers s t = Storing \<longrightarrow> t \<in> set order) \<and>
     set (made s) \<subseteq> set order \<and>
     (\<forall>t. entries s t = None \<longleftrightarrow> t \<notin> set (made s)) \<and>
     (\<forall>t. count_list (made s) t + pending_for s t \<le> 2)"

lemma race_inv_start: "race_inv order (race_start order)"
  by (simp add: race_inv_def race_start_def pending_for_def)

lemma race_count_step:
  assumes "race_step T s s'" and "\<forall>t. entries s t = None \<longleftrightarrow> t \<notin> set (made s)"
    and "\<forall>t. count_list (made s) t + pending_for s t \<le> 2"
  shows "count_list (made s') u + pending_for s' u \<le> 2"
proof -
  have b: "count_list (made s) u + pending_for s u \<le> 2" using assms(3) by blast
  have z: "entries s u = None \<Longrightarrow> count_list (made s) u = 0"
    using assms(2) by (simp add: count_list_0_iff)
  show ?thesis using assms(1)
    by (cases rule: race_step.cases)
      (use b z in \<open>auto simp: pending_for_def store_object_def split: if_splits\<close>)
qed

lemma race_inv_step:
  assumes "race_step (set order) s s'" and "race_inv order s"
  shows "race_inv order s'"
proof -
  note inv = assms(2) [unfolded race_inv_def]
  obtain past where d: "order = past @ todo s" "set past \<subseteq> set (made s)" using inv by blast
  have "\<exists>past. order = past @ todo s' \<and> set past \<subseteq> set (made s')"
    using assms(1)
  proof (cases rule: race_step.cases)
    case (main_present t ts)
    then have "t \<in> set (made s)" using inv by auto
    then show ?thesis using main_present d by (intro exI [of _ "past @ [t]"]) auto
  next
    case (main_store t ts)
    then show ?thesis using d by (intro exI [of _ "past @ [t]"]) (auto simp: store_object_def)
  qed (use d in \<open>auto simp: store_object_def\<close>)
  moreover have "(main_storing s' \<longrightarrow> todo s' \<noteq> []) \<and> (\<forall>t. workers s' t = Storing \<longrightarrow> t \<in> set order)"
    using assms(1) inv by (cases rule: race_step.cases) (auto simp: store_object_def split: if_splits)
  moreover have "set (made s') \<subseteq> set order \<and> (\<forall>t. entries s' t = None \<longleftrightarrow> t \<notin> set (made s'))"
    using assms(1) inv d(1) by (cases rule: race_step.cases) (auto simp: store_object_def)
  moreover have "\<forall>u. count_list (made s') u + pending_for s' u \<le> 2"
    using race_count_step [OF assms(1)] inv by blast
  ultimately show ?thesis unfolding race_inv_def by blast
qed

lemma race_inv_reachable: "(race_step (set order))\<^sup>*\<^sup>* (race_start order) s \<Longrightarrow> race_inv order s"
  by (induction rule: rtranclp_induct) (auto simp: race_inv_start race_inv_step)

lemma race_over_entries:
  assumes "race_inv order s" and "race_over s"
  shows "dom (entries s) = set order" and "set (made s) = set order"
  using assms unfolding race_inv_def race_over_def dom_def by auto

lemma race_over_count:
  assumes "race_inv order s" and "race_over s" and "distinct order"
  shows "length order \<le> length (made s)" and "length (made s) \<le> 2 * length order"
proof -
  have m: "set (made s) = set order" by (rule race_over_entries [OF assms(1,2)])
  show "length order \<le> length (made s)"
    using card_length [of "made s"] distinct_card [OF assms(3)] m by simp
  have "length (made s) = (\<Sum>t \<in> set order. count_list (made s) t)"
    using sum_count_set [of "made s" "set order"] m by simp
  also have "\<dots> \<le> (\<Sum>t \<in> set order. 2)"
    using assms(1) by (intro sum_mono) (metis race_inv_def add_leD1)
  also have "\<dots> = 2 * length order" using distinct_card [OF assms(3)] by simp
  finally show "length (made s) \<le> 2 * length order" .
qed

section \<open>Every number in between occurs\<close>

text \<open>The schedule that makes two objects for the first \<open>k\<close> threads and one for the others.\<close>

lemma race_schedule:
  assumes "set (todo s) \<subseteq> T" and "\<not> main_storing s" and "\<forall>t. workers s t = Counting"
    and "\<forall>t \<in> set (todo s). entries s t = None" and "distinct (todo s)" and "k \<le> length (todo s)"
  shows "\<exists>s'. (race_step T)\<^sup>*\<^sup>* s s' \<and> race_over s' \<and> length (made s') = length (made s) + length (todo s) + k"
  using assms
proof (induction "todo s" arbitrary: s k)
  case Nil
  then show ?case by (intro exI [of _ s]) (simp add: race_over_def)
next
  case (Cons t ts)
  note todo = Cons.hyps(2) [symmetric]
  have t: "t \<in> T" "entries s t = None" "workers s t = Counting" using Cons.prems(1,3,4) todo by auto
  let ?a = "s\<lparr>workers := (workers s)(t := Storing)\<rparr>"
  let ?b = "?a\<lparr>main_storing := True\<rparr>"
  let ?c = "store_object t (?b\<lparr>workers := (workers ?b)(t := Counting)\<rparr>)"
  let ?d = "store_object t (?c\<lparr>todo := ts, main_storing := False\<rparr>)"
  let ?e = "s\<lparr>main_storing := True\<rparr>"
  let ?f = "store_object t (?e\<lparr>todo := ts, main_storing := False\<rparr>)"
  have two: "(race_step T)\<^sup>*\<^sup>* s ?d"
  proof -
    have "race_step T s ?a" by (rule worker_absent) (use t in simp_all)
    moreover have "race_step T ?a ?b" by (rule main_absent [of _ t ts]) (use t todo Cons.prems(2) in simp_all)
    moreover have "race_step T ?b ?c" by (rule worker_store) (use t in simp_all)
    moreover have "race_step T ?c ?d"
      by (rule main_store) (use todo in \<open>simp_all add: store_object_def\<close>)
    ultimately show ?thesis by (meson converse_rtranclp_into_rtranclp r_into_rtranclp)
  qed
  have one: "(race_step T)\<^sup>*\<^sup>* s ?f"
  proof -
    have "race_step T s ?e" by (rule main_absent [of _ t ts]) (use t todo Cons.prems(2) in simp_all)
    moreover have "race_step T ?e ?f" by (rule main_store) (use todo in simp_all)
    ultimately show ?thesis by (meson converse_rtranclp_into_rtranclp r_into_rtranclp)
  qed
  define g where "g = (if k = 0 then ?f else ?d)"
  have g: "todo g = ts" "\<not> main_storing g" "\<forall>u. workers g u = Counting" "\<forall>u. u \<noteq> t \<longrightarrow> entries g u = entries s u"
    "length (made g) = length (made s) + (if k = 0 then 1 else 2)"
    using Cons.prems(3) by (simp_all add: g_def store_object_def)
  have "\<exists>s'. (race_step T)\<^sup>*\<^sup>* g s' \<and> race_over s' \<and> length (made s') = length (made g) + length (todo g) + (k - 1)"
    by (rule Cons.hyps(1)) (use g Cons.prems todo in \<open>auto simp: todo\<close>)
  then obtain s' where s': "(race_step T)\<^sup>*\<^sup>* g s'" "race_over s'"
    "length (made s') = length (made g) + length ts + (k - 1)" using g(1) by auto
  have "(race_step T)\<^sup>*\<^sup>* s g" using one two by (simp add: g_def)
  then have "(race_step T)\<^sup>*\<^sup>* s s'" using s'(1) by (rule rtranclp_trans)
  moreover have "length (made s') = length (made s) + length (todo s) + k"
    using s'(3) g(5) todo by (cases k) simp_all
  ultimately show ?case using s'(2) by blast
qed

section \<open>Properties\<close>

text \<open>
  The lookup and the insertion of \<open>Initialize\<close> and \<open>GetAsObject\<close> are not atomic together: when all
  threads have started and \<open>Initialize\<close> is over each of the threads has an object, and none has been
  made more than twice, but for every number from one object a thread to two there is an
  interleaving that makes as many; those no entry refers to are never destroyed.
\<close>

theorem pool_race:
  assumes "distinct order"
  shows "(\<forall>s. (race_step (set order))\<^sup>*\<^sup>* (race_start order) s \<and> race_over s \<longrightarrow> dom (entries s) = set order) \<and>
    {length (made s) |s. (race_step (set order))\<^sup>*\<^sup>* (race_start order) s \<and> race_over s} =
      {length order .. 2 * length order}"
proof -
  let ?counts = "{length (made s) |s. (race_step (set order))\<^sup>*\<^sup>* (race_start order) s \<and> race_over s}"
  have "?counts \<subseteq> {length order .. 2 * length order}"
    using race_over_count [OF race_inv_reachable _ assms] by fastforce
  moreover have "n \<in> ?counts" if n: "n \<in> {length order .. 2 * length order}" for n
  proof -
    have "\<exists>s'. (race_step (set order))\<^sup>*\<^sup>* (race_start order) s' \<and> race_over s' \<and>
        length (made s') = length (made (race_start order)) + length (todo (race_start order)) + (n - length order)"
      by (rule race_schedule) (use assms n in \<open>auto simp: race_start_def\<close>)
    then show ?thesis using n by (fastforce simp: race_start_def)
  qed
  ultimately have "?counts = {length order .. 2 * length order}" by blast
  moreover have "\<forall>s. (race_step (set order))\<^sup>*\<^sup>* (race_start order) s \<and> race_over s \<longrightarrow> dom (entries s) = set order"
    using race_over_entries(1) [OF race_inv_reachable] by blast
  ultimately show ?thesis by (intro conjI)
qed

lemma pool_race_witness:
  "\<exists>s. (race_step {0 :: nat, 1})\<^sup>*\<^sup>* (race_start [0, 1]) s \<and> race_over s \<and> length (made s) = 4"
proof -
  have "4 \<in> {length (made s) |s. (race_step (set [0 :: nat, 1]))\<^sup>*\<^sup>* (race_start [0, 1]) s \<and> race_over s}"
    using pool_race [of "[0 :: nat, 1]"] by simp
  then show ?thesis by auto
qed

end
