(* ===== verification/Startup.thy ===== *)
theory Startup
  imports Pool_Race
begin

text \<open>
  The race of \<open>Pool_Race\<close> on the pool itself: \<open>Initialize\<close> and the first \<open>GetAsObject\<close> of each thread on one
  \<open>AS_CONTROL\<close>, with the objects they make. It is bisimilar to the abstract race, so what that shows of the
  number of objects holds of the handles of the client library, and \<open>AS_CONTROL_delete\<close> shows
  how many of them are never destroyed.
\<close>

record ('t, 'w) startup =
  control :: "'t as_control"
  world :: 'w
  lookups :: "'t \<Rightarrow> worker"
  keys_left :: "'t list"
  initializing :: bool

definition startup_begin :: "'t list \<Rightarrow> 't as_control \<Rightarrow> 'w \<Rightarrow> ('t, 'w) startup" where
  "startup_begin order c w =
     \<lparr>control = c, world = w, lookups = (\<lambda>t. Counting), keys_left = order, initializing = False\<rparr>"

text \<open>The insertion of either function, once the lookup has found nothing.\<close>

definition insert_now :: "'w aerospike \<Rightarrow> 't \<Rightarrow> ('t, 'w) startup \<Rightarrow> ('t, 'w) startup" where
  "insert_now A t s =
     (let (c, w) = insert_object A t (control s) (world s) in s\<lparr>control := c, world := w\<rparr>)"

inductive startup_step :: "'w aerospike \<Rightarrow> 't set \<Rightarrow> ('t, 'w) startup \<Rightarrow> ('t, 'w) startup \<Rightarrow> bool" for A T where
  get_absent:
    "t \<in> T \<Longrightarrow> lookups s t = Counting \<Longrightarrow> rAsList (control s) t = None \<Longrightarrow>
       startup_step A T s (s\<lparr>lookups := (lookups s)(t := Storing)\<rparr>)"
| get_insert:
    "t \<in> T \<Longrightarrow> lookups s t = Storing \<Longrightarrow>
       startup_step A T s (insert_now A t (s\<lparr>lookups := (lookups s)(t := Counting)\<rparr>))"
| init_present:
    "keys_left s = t # ts \<Longrightarrow> \<not> initializing s \<Longrightarrow> rAsList (control s) t \<noteq> None \<Longrightarrow>
       startup_step A T s (s\<lparr>keys_left := ts\<rparr>)"
| init_absent:
    "keys_left s = t # ts \<Longrightarrow> \<not> initializing s \<Longrightarrow> rAsList (control s) t = None \<Longrightarrow>
       startup_step A T s (s\<lparr>initializing := True\<rparr>)"
| init_insert:
    "keys_left s = t # ts \<Longrightarrow> initializing s \<Longrightarrow>
       startup_step A T s (insert_now A t (s\<lparr>keys_left := ts, initializing := False\<rparr>))"

definition startup_over :: "('t, 'w) startup \<Rightarrow> bool" where
  "startup_over s \<longleftrightarrow> keys_left s = [] \<and> (\<forall>t. lookups s t = Counting)"

section \<open>Bisimulation\<close>

text \<open>
  \<open>live\<close> counts the handles of the client library in a world: each object of the pool makes one, which its
  destructor destroys.
\<close>

definition counts_handles :: "'w aerospike \<Rightarrow> ('w \<Rightarrow> nat) \<Rightarrow> bool" where
  "counts_handles A live \<longleftrightarrow>
     (\<forall>cfg w. live (snd (snd (aerospike_connect A cfg w))) = Suc (live w)) \<and>
     (\<forall>xs w. live (snd (random_shuffle A xs w)) = live w) \<and>
     (\<forall>cfg w. live (snd (snd (aerospike_close A cfg w))) = live w) \<and>
     (\<forall>cfg w. live (aerospike_destroy A cfg w) = live w - 1)"

definition stands_for :: "('w \<Rightarrow> nat) \<Rightarrow> nat \<Rightarrow> ('t, 'w) startup \<Rightarrow> 't race \<Rightarrow> bool" where
  "stands_for live n s a \<longleftrightarrow>
     dom (rAsList (control s)) = dom (entries a) \<and> lookups s = workers a \<and> keys_left s = todo a \<and>
     initializing s = main_storing a \<and> live (world s) = n + length (made a)"

lemma insert_object_effect:
  assumes "counts_handles A live" and "insert_object A t c w = (c', w')"
  shows "dom (rAsList c') = insert t (dom (rAsList c))" and "live w' = Suc (live w)"
proof -
  obtain xs w1 where sh: "random_shuffle A (as_server_list c) w = (xs, w1)" by fastforce
  let ?cfg = "object_config A xs (port c) (word_of_int (timeout c))"
  obtain st er w2 where co: "aerospike_connect A ?cfg w1 = (st, er, w2)" by (cases "aerospike_connect A ?cfg w1")
  have "live w1 = live w" "live w2 = Suc (live w1)"
    using assms(1) sh co unfolding counts_handles_def by (metis snd_conv)+
  then show "dom (rAsList c') = insert t (dom (rAsList c))" and "live w' = Suc (live w)"
    using assms(2) sh co by (auto simp: insert_object_def AS_OBJECT_new_def Let_def)
qed

lemma stands_for_insert:
  assumes "counts_handles A live" and "stands_for live n s a"
  shows "stands_for live n (insert_now A t s) (store_object t a)"
proof -
  obtain c w where i: "insert_object A t (control s) (world s) = (c, w)" by fastforce
  show ?thesis
    using insert_object_effect [OF assms(1) i] assms(2)
    by (simp add: insert_now_def i stands_for_def store_object_def)
qed

lemma stands_for_lookup: "stands_for live n s a \<Longrightarrow> rAsList (control s) t = None \<longleftrightarrow> entries a t = None"
  unfolding stands_for_def by (metis domIff)

lemma startup_forward:
  assumes "counts_handles A live" and "startup_step A T s s'" and "stands_for live n s a"
  shows "\<exists>a'. race_step T a a' \<and> stands_for live n s' a'"
  using assms(2)
proof cases
  case (get_absent t)
  then have "race_step T a (a\<lparr>workers := (workers a)(t := Storing)\<rparr>)"
    using assms(3) stands_for_lookup [OF assms(3)] by (intro worker_absent) (auto simp: stands_for_def)
  then show ?thesis using get_absent assms(3) by (intro exI conjI) (assumption, simp add: stands_for_def)
next
  case (get_insert t)
  let ?a = "a\<lparr>workers := (workers a)(t := Counting)\<rparr>"
  have "race_step T a (store_object t ?a)"
    using get_insert assms(3) by (intro worker_store) (auto simp: stands_for_def)
  moreover have "stands_for live n s' (store_object t ?a)"
    unfolding get_insert by (rule stands_for_insert [OF assms(1)]) (use assms(3) in \<open>simp add: stands_for_def\<close>)
  ultimately show ?thesis by blast
next
  case (init_present t ts)
  then have "race_step T a (a\<lparr>todo := ts\<rparr>)"
    using assms(3) stands_for_lookup [OF assms(3)] by (intro main_present [of _ t]) (auto simp: stands_for_def)
  then show ?thesis using init_present assms(3) by (intro exI conjI) (assumption, simp add: stands_for_def)
next
  case (init_absent t ts)
  then have "race_step T a (a\<lparr>main_storing := True\<rparr>)"
    using assms(3) stands_for_lookup [OF assms(3)] by (intro main_absent [of _ t ts]) (auto simp: stands_for_def)
  then show ?thesis using init_absent assms(3) by (intro exI conjI) (assumption, simp add: stands_for_def)
next
  case (init_insert t ts)
  let ?a = "a\<lparr>todo := ts, main_storing := False\<rparr>"
  have "race_step T a (store_object t ?a)"
    using init_insert assms(3) by (intro main_store) (auto simp: stands_for_def)
  moreover have "stands_for live n s' (store_object t ?a)"
    unfolding init_insert by (rule stands_for_insert [OF assms(1)]) (use assms(3) in \<open>simp add: stands_for_def\<close>)
  ultimately show ?thesis by blast
qed

lemma startup_backward:
  assumes "counts_handles A live" and "race_step T a a'" and "stands_for live n s a"
  shows "\<exists>s'. startup_step A T s s' \<and> stands_for live n s' a'"
  using assms(2)
proof cases
  case (worker_absent t)
  then have "startup_step A T s (s\<lparr>lookups := (lookups s)(t := Storing)\<rparr>)"
    using assms(3) stands_for_lookup [OF assms(3)] by (intro get_absent) (auto simp: stands_for_def)
  then show ?thesis using worker_absent assms(3) by (intro exI conjI) (assumption, simp add: stands_for_def)
next
  case (worker_store t)
  let ?s = "s\<lparr>lookups := (lookups s)(t := Counting)\<rparr>"
  have "startup_step A T s (insert_now A t ?s)"
    using worker_store assms(3) by (intro get_insert) (auto simp: stands_for_def)
  moreover have "stands_for live n (insert_now A t ?s) a'"
    unfolding worker_store by (rule stands_for_insert [OF assms(1)]) (use assms(3) in \<open>simp add: stands_for_def\<close>)
  ultimately show ?thesis by blast
next
  case (main_present t ts)
  then have "startup_step A T s (s\<lparr>keys_left := ts\<rparr>)"
    using assms(3) stands_for_lookup [OF assms(3)] by (intro init_present [of _ t]) (auto simp: stands_for_def)
  then show ?thesis using main_present assms(3) by (intro exI conjI) (assumption, simp add: stands_for_def)
next
  case (main_absent t ts)
  then have "startup_step A T s (s\<lparr>initializing := True\<rparr>)"
    using assms(3) stands_for_lookup [OF assms(3)] by (intro init_absent [of _ t ts]) (auto simp: stands_for_def)
  then show ?thesis using main_absent assms(3) by (intro exI conjI) (assumption, simp add: stands_for_def)
next
  case (main_store t ts)
  let ?s = "s\<lparr>keys_left := ts, initializing := False\<rparr>"
  have "startup_step A T s (insert_now A t ?s)"
    using main_store assms(3) by (intro init_insert) (auto simp: stands_for_def)
  moreover have "stands_for live n (insert_now A t ?s) a'"
    unfolding main_store by (rule stands_for_insert [OF assms(1)]) (use assms(3) in \<open>simp add: stands_for_def\<close>)
  ultimately show ?thesis by blast
qed

lemma startup_run_forward:
  assumes "(startup_step A T)\<^sup>*\<^sup>* s s'" and "counts_handles A live" and "stands_for live n s a"
  shows "\<exists>a'. (race_step T)\<^sup>*\<^sup>* a a' \<and> stands_for live n s' a'"
  using assms(1)
proof (induction rule: rtranclp_induct)
  case base
  then show ?case using assms(3) by blast
next
  case (step s1 s2)
  then show ?case using startup_forward [OF assms(2)] by (meson rtranclp.rtrancl_into_rtrancl)
qed

lemma startup_run_backward:
  assumes "(race_step T)\<^sup>*\<^sup>* a a'" and "counts_handles A live" and "stands_for live n s a"
  shows "\<exists>s'. (startup_step A T)\<^sup>*\<^sup>* s s' \<and> stands_for live n s' a'"
  using assms(1)
proof (induction rule: rtranclp_induct)
  case base
  then show ?case using assms(3) by blast
next
  case (step a1 a2)
  then show ?case using startup_backward [OF assms(2)] by (meson rtranclp.rtrancl_into_rtrancl)
qed

lemma stands_for_begin:
  "rAsList c = Map.empty \<Longrightarrow> stands_for live (live w) (startup_begin order c w) (race_start order)"
  by (simp add: stands_for_def startup_begin_def race_start_def)

lemma stands_for_over: "stands_for live n s a \<Longrightarrow> startup_over s \<longleftrightarrow> race_over a"
  by (simp add: stands_for_def startup_over_def race_over_def)

lemma AS_CONTROL_delete_counts:
  assumes "counts_handles A live"
  shows "set order \<subseteq> dom (rAsList c) \<Longrightarrow> live (AS_CONTROL_delete A order c w) = live w - length order"
proof (induction order arbitrary: w)
  case Nil
  then show ?case by simp
next
  case (Cons t ts)
  then obtain x where x: "rAsList c t = Some x" by auto
  obtain st er w1 where cl: "aerospike_close A (as_cfg x) w = (st, er, w1)" by (cases "aerospike_close A (as_cfg x) w")
  then have "live w1 = live w" using assms unfolding counts_handles_def by (metis snd_conv)
  then have "live (AS_OBJECT_delete A x w) = live w - 1"
    using assms cl by (simp add: AS_OBJECT_delete_def counts_handles_def)
  with Cons x show ?case by simp
qed

section \<open>Properties\<close>

text \<open>
  C31: the start of the program leaks handles: the lookup and the insertion of \<open>Initialize\<close> and \<open>GetAsObject\<close>
  are not atomic together, so when \<open>n\<close> threads take their first objects while \<open>Initialize\<close> runs, every
  thread ends up with an object, but after \<open>delete asOP\<close> any number of handles from none to \<open>n\<close> may be
  left undestroyed, each of these numbers in some interleaving.
\<close>

theorem startup_leaks_handles:
  assumes "counts_handles A live" and "distinct order" and "rAsList c = Map.empty"
  shows "(\<forall>s. (startup_step A (set order))\<^sup>*\<^sup>* (startup_begin order c w) s \<and> startup_over s \<longrightarrow>
      dom (rAsList (control s)) = set order) \<and>
    {live (AS_CONTROL_delete A order (control s) (world s)) |s.
       (startup_step A (set order))\<^sup>*\<^sup>* (startup_begin order c w) s \<and> startup_over s} =
      {live w .. live w + length order}"
proof -
  let ?T = "set order" and ?b = "startup_begin order c w"
  note b = stands_for_begin [OF assms(3), of live w order]
  note race = pool_race [OF assms(2)]
  have fwd: "dom (rAsList (control s)) = ?T \<and> (\<exists>k \<in> {length order .. 2 * length order}. live (world s) = live w + k)"
    if s: "(startup_step A ?T)\<^sup>*\<^sup>* ?b s" "startup_over s" for s
  proof -
    obtain a where a: "(race_step ?T)\<^sup>*\<^sup>* (race_start order) a" "stands_for live (live w) s a"
      using startup_run_forward [OF s(1) assms(1) b] by blast
    have o: "race_over a" using stands_for_over [OF a(2)] s(2) by simp
    then have "length (made a) \<in> {length order .. 2 * length order}" "dom (entries a) = ?T" using race a(1) by blast+
    then show ?thesis using a(2) by (auto simp: stands_for_def)
  qed
  have bwd: "\<exists>s. (startup_step A ?T)\<^sup>*\<^sup>* ?b s \<and> startup_over s \<and> live (world s) = live w + k"
    if "k \<in> {length order .. 2 * length order}" for k
  proof -
    have "k \<in> {length (made s) |s. (race_step ?T)\<^sup>*\<^sup>* (race_start order) s \<and> race_over s}" using race that by blast
    then obtain a where a: "(race_step ?T)\<^sup>*\<^sup>* (race_start order) a" "race_over a" "length (made a) = k" by blast
    obtain s where s: "(startup_step A ?T)\<^sup>*\<^sup>* ?b s" "stands_for live (live w) s a"
      using startup_run_backward [OF a(1) assms(1) b] by blast
    then show ?thesis using stands_for_over [OF s(2)] a(2,3) by (auto simp: stands_for_def)
  qed
  have del: "live (AS_CONTROL_delete A order (control s) (world s)) = live (world s) - length order"
    if "(startup_step A ?T)\<^sup>*\<^sup>* ?b s" "startup_over s" for s
    using AS_CONTROL_delete_counts [OF assms(1), of order "control s"] fwd [OF that] by simp
  let ?left = "{live (AS_CONTROL_delete A order (control s) (world s)) |s. (startup_step A ?T)\<^sup>*\<^sup>* ?b s \<and> startup_over s}"
  have "?left \<subseteq> {live w .. live w + length order}" using fwd del by fastforce
  moreover have "m \<in> ?left" if m: "m \<in> {live w .. live w + length order}" for m
  proof -
    have "m - live w + length order \<in> {length order .. 2 * length order}" using m by auto
    then obtain s where s: "(startup_step A ?T)\<^sup>*\<^sup>* ?b s" "startup_over s"
      "live (world s) = live w + (m - live w + length order)" using bwd by blast
    have "live (AS_CONTROL_delete A order (control s) (world s)) = m" using del [OF s(1,2)] s(3) m by simp
    then show ?thesis using s by blast
  qed
  ultimately have "?left = {live w .. live w + length order}" by blast
  then show ?thesis using fwd by blast
qed

text \<open>For the witness: a database whose world is the number of handles.\<close>

definition counting_store :: "nat aerospike" where
  "counting_store =
     \<lparr>AEROSPIKE_OK = 0, AEROSPIKE_ERR = 100, AEROSPIKE_ERR_PARAM = 4, AEROSPIKE_ERR_CLIENT = -1,
      AEROSPIKE_ERR_QUERY = 213, AEROSPIKE_ERR_TIMEOUT = 9, AEROSPIKE_ERR_CLUSTER_CHANGE = 7,
      AEROSPIKE_ERR_CLUSTER = 11, AEROSPIKE_ERR_INVALID_HOST = -4,
      as_config_init = as_config_init cell_store, as_config_add_host = as_config_add_host cell_store,
      as_policies_init = as_policies_init cell_store, random_shuffle = (\<lambda>xs w. (xs, w)),
      aerospike_connect = (\<lambda>c w. (0, 0, Suc w)),
      aerospike_key_get = (\<lambda>c k w. (2, 2, \<lparr>bins = [], gen = 0, ttl = 0\<rparr>, w)),
      aerospike_key_put = (\<lambda>c k r w. (0, 0, w)), aerospike_key_remove = (\<lambda>c k w. (0, 0, w)),
      as_record_set = as_record_set cell_store, as_error_string = as_error_string cell_store,
      aerospike_close = (\<lambda>c w. (0, 0, w)), aerospike_destroy = (\<lambda>c w. w - 1)\<rparr>"

lemma startup_leaks_handles_witness:
  "\<exists>s. (startup_step counting_store {0 :: nat, 1})\<^sup>*\<^sup>* (startup_begin [0, 1] sample_control 0) s \<and> startup_over s \<and>
     AS_CONTROL_delete counting_store [0, 1] (control s) (world s) = 2"
proof -
  have "counts_handles counting_store id" by (simp add: counts_handles_def counting_store_def)
  from startup_leaks_handles [OF this, of "[0 :: nat, 1]" sample_control 0]
  have "2 \<in> {id (AS_CONTROL_delete counting_store [0 :: nat, 1] (control s) (world s)) |s.
      (startup_step counting_store (set [0, 1]))\<^sup>*\<^sup>* (startup_begin [0, 1] sample_control 0) s \<and> startup_over s}"
    by (simp add: sample_control_def AS_CONTROL_new_def)
  then show ?thesis by auto
qed

end
