(* ===== verification/Check_Race.thy ===== *)
theory Check_Race
  imports As_Control
begin

text \<open>
  The health check and a handler on one object of the pool at the same time: the timer runs
  \<open>CheckAsServersStatus\<close> on any thread, the thread the object belongs to may be inside \<open>GET\<close>, and no lock
  keeps them apart. Each is cut into its accesses to the members the two share, \<open>isalive_\<close> and
  \<open>as_err_\<close>, and its calls of the client library; a move is one of them.
\<close>

section \<open>One after the other\<close>

text \<open>The body of the loop of \<open>CheckAsServersStatus\<close>.\<close>

definition check_object :: "'w aerospike \<Rightarrow> as_object \<Rightarrow> 'w \<Rightarrow> as_object \<times> 'w" where
  "check_object A x w =
     (let (ok, x1, w1) = AS_OBJECT_STATUS A x w in if \<not> ok then AS_OBJECT_RECONNECT A x1 w1 else (x1, w1))"

lemma CheckAsServersStatus_one:
  assumes "rAsList c t = Some x"
  shows "CheckAsServersStatus A [t] c w =
    (let (x', w') = check_object A x w in (c\<lparr>rAsList := (rAsList c)(t \<mapsto> x')\<rparr>, w'))"
  using assms by (auto simp: CheckAsServersStatus_def check_object_def Let_def split: prod.split)

text \<open>What \<open>GET\<close> returns: the status, the JSON object, the time to live and the generation.\<close>

type_synonym 'j got = "(int \<times> 'j \<times> int \<times> int) outcome"

definition got_of :: "('j, 'w) get_result outcome \<Rightarrow> 'j got" where
  "got_of r = (case r of Inl e \<Rightarrow> Inl e | Inr (st, x, j, t, g, w) \<Rightarrow> Inr (st, j, t, g))"

section \<open>Move by move\<close>

datatype 'j get_pc = Get_start | Get_reset | Get_query | Get_convert int as_record | Get_over "'j got"
datatype check_pc = Check_start | Check_query | Check_reset | Check_connect | Check_over

record 'j shared =
  object :: as_object
  get_pc :: "'j get_pc"
  check_pc :: check_pc

definition get_move ::
  "'w aerospike \<Rightarrow> 'j jansson \<Rightarrow> 'z zlib \<Rightarrow> (nat \<Rightarrow> bool) \<Rightarrow> as_key \<Rightarrow> 'j \<Rightarrow> int \<Rightarrow> int \<Rightarrow> 'w \<Rightarrow>
     'j shared \<Rightarrow> 'j shared" where
  "get_move A J Z realloc key obj ttl0 gen0 w s =
     (let x = object s
      in case get_pc s of
           Get_start \<Rightarrow> s\<lparr>get_pc := if \<not> isalive x then Get_over (Inr (-1, obj, ttl0, gen0)) else Get_reset\<rparr>
         | Get_reset \<Rightarrow> s\<lparr>object := x\<lparr>as_err := AEROSPIKE_OK A\<rparr>, get_pc := Get_query\<rparr>
         | Get_query \<Rightarrow>
             (let (status, err, rec, w') = aerospike_key_get A (as_cfg x) key w
              in s\<lparr>object := x\<lparr>as_err := err\<rparr>, get_pc := Get_convert status rec\<rparr>)
         | Get_convert status rec \<Rightarrow>
             s\<lparr>get_pc := Get_over
                 (if status \<noteq> AEROSPIKE_OK A then Inr (status, obj, ttl0, gen0)
                  else
                    (case data_convert_to_json_v1 J Z realloc (bins rec) obj of
                       Inl e \<Rightarrow> Inl e | Inr obj' \<Rightarrow> Inr (status, obj', ttl rec, gen rec)))\<rparr>
         | Get_over r \<Rightarrow> s)"

definition check_move :: "'w aerospike \<Rightarrow> 'w \<Rightarrow> 'j shared \<Rightarrow> 'j shared" where
  "check_move A w s =
     (let x = object s
      in case check_pc s of
           Check_start \<Rightarrow> s\<lparr>check_pc := if \<not> isalive x then Check_reset else Check_query\<rparr>
         | Check_query \<Rightarrow>
             (let (status, err, rec, w') = aerospike_key_get A (as_cfg x) (as_key_init ''ns'' ''set'' ''key'') w
              in s\<lparr>object := x\<lparr>as_err := err\<rparr>,
                   check_pc :=
                     (if status \<in> {AEROSPIKE_ERR_PARAM A, AEROSPIKE_ERR_CLIENT A, AEROSPIKE_ERR A}
                      then Check_reset else Check_over)\<rparr>)
         | Check_reset \<Rightarrow> s\<lparr>object := x\<lparr>as_err := AEROSPIKE_OK A\<rparr>, check_pc := Check_connect\<rparr>
         | Check_connect \<Rightarrow>
             (let (st, err, w') = aerospike_connect A (as_cfg x) w
              in s\<lparr>object := x\<lparr>as_err := err, isalive := (st = AEROSPIKE_OK A)\<rparr>, check_pc := Check_over\<rparr>)
         | Check_over \<Rightarrow> s)"

inductive race_move ::
  "'w aerospike \<Rightarrow> 'j jansson \<Rightarrow> 'z zlib \<Rightarrow> (nat \<Rightarrow> bool) \<Rightarrow> as_key \<Rightarrow> 'j \<Rightarrow> int \<Rightarrow> int \<Rightarrow> 'w \<Rightarrow>
     'j shared \<Rightarrow> 'j shared \<Rightarrow> bool"
  for A :: "'w aerospike" and J :: "'j jansson" and Z :: "'z zlib" and realloc :: "nat \<Rightarrow> bool"
  and key :: as_key and obj :: 'j and ttl0 :: int and gen0 :: int and w :: 'w
where
  handler: "race_move A J Z realloc key obj ttl0 gen0 w s (get_move A J Z realloc key obj ttl0 gen0 w s)"
| checker: "race_move A J Z realloc key obj ttl0 gen0 w s (check_move A w s)"

definition shared_start :: "as_object \<Rightarrow> 'j shared" where
  "shared_start x = \<lparr>object = x, get_pc = Get_start, check_pc = Check_start\<rparr>"

text \<open>The database in the state \<open>w\<close> is not changed by the reads and connects of the two.\<close>

definition reads_only :: "'w aerospike \<Rightarrow> 'w \<Rightarrow> bool" where
  "reads_only A w \<longleftrightarrow>
     (\<forall>cfg key. \<exists>st err rec. aerospike_key_get A cfg key w = (st, err, rec, w)) \<and>
     (\<forall>cfg. \<exists>st err. aerospike_connect A cfg w = (st, err, w))"

section \<open>Invariant\<close>

text \<open>What \<open>GET\<close> returns for an object that is alive or not.\<close>

definition got_if ::
  "'w aerospike \<Rightarrow> 'j jansson \<Rightarrow> 'z zlib \<Rightarrow> (nat \<Rightarrow> bool) \<Rightarrow> as_key \<Rightarrow> 'j \<Rightarrow> int \<Rightarrow> int \<Rightarrow> 'w \<Rightarrow> as_config \<Rightarrow>
     bool \<Rightarrow> 'j got" where
  "got_if A J Z realloc key obj ttl0 gen0 w cfg alive =
     (if \<not> alive then Inr (-1, obj, ttl0, gen0)
      else
        (let (status, err, rec, w') = aerospike_key_get A cfg key w
         in if status \<noteq> AEROSPIKE_OK A then Inr (status, obj, ttl0, gen0)
            else
              (case data_convert_to_json_v1 J Z realloc (bins rec) obj of
                 Inl e \<Rightarrow> Inl e | Inr obj' \<Rightarrow> Inr (status, obj', ttl rec, gen rec))))"

lemma got_of_GET:
  "got_of (GET A J Z realloc x ns st k obj ttl0 gen0 w) =
     got_if A J Z realloc (as_key_init ns st k) obj ttl0 gen0 w (as_cfg x) (isalive x)"
  by (auto simp: got_of_def got_if_def GET_def Let_def split: prod.split sum.split)

definition shared_inv ::
  "'w aerospike \<Rightarrow> 'j jansson \<Rightarrow> 'z zlib \<Rightarrow> (nat \<Rightarrow> bool) \<Rightarrow> as_key \<Rightarrow> 'j \<Rightarrow> int \<Rightarrow> int \<Rightarrow> 'w \<Rightarrow> as_object \<Rightarrow>
     'j shared \<Rightarrow> bool" where
  "shared_inv A J Z realloc key obj ttl0 gen0 w x s \<longleftrightarrow>
     (let before = isalive x; after = isalive (fst (check_object A x w));
          got = got_if A J Z realloc key obj ttl0 gen0 w (as_cfg x)
      in as_cfg (object s) = as_cfg x \<and>
         isalive (object s) = (if check_pc s = Check_over then after else before) \<and>
         (check_pc s = Check_query \<longrightarrow> before) \<and>
         (check_pc s \<in> {Check_reset, Check_connect} \<longrightarrow> \<not> fst (AS_OBJECT_STATUS A x w)) \<and>
         (case get_pc s of
            Get_start \<Rightarrow> True
          | Get_reset \<Rightarrow> before \<or> after
          | Get_query \<Rightarrow> before \<or> after
          | Get_convert status rec \<Rightarrow>
              (before \<or> after) \<and> (\<exists>err w'. aerospike_key_get A (as_cfg x) key w = (status, err, rec, w'))
          | Get_over r \<Rightarrow> r = got before \<or> r = got after))"

lemma check_object_alive:
  assumes "reads_only A w"
  shows "isalive (fst (check_object A x w)) =
    (if fst (AS_OBJECT_STATUS A x w) then isalive x else fst (aerospike_connect A (as_cfg x) w) = AEROSPIKE_OK A)"
proof -
  obtain st err rec where "aerospike_key_get A (as_cfg x) (as_key_init ''ns'' ''set'' ''key'') w = (st, err, rec, w)"
    using assms unfolding reads_only_def by blast
  then show ?thesis
    by (auto simp: check_object_def AS_OBJECT_STATUS_def AS_OBJECT_RECONNECT_def Let_def split: prod.split)
qed

lemma AS_OBJECT_STATUS_ok:
  "fst (AS_OBJECT_STATUS A x w) \<longleftrightarrow>
     isalive x \<and> fst (aerospike_key_get A (as_cfg x) (as_key_init ''ns'' ''set'' ''key'') w) \<notin>
       {AEROSPIKE_ERR_PARAM A, AEROSPIKE_ERR_CLIENT A, AEROSPIKE_ERR A}"
  by (auto simp: AS_OBJECT_STATUS_def Let_def split: prod.split)

lemma shared_inv_get:
  assumes "shared_inv A J Z realloc key obj ttl0 gen0 w x s"
  shows "shared_inv A J Z realloc key obj ttl0 gen0 w x (get_move A J Z realloc key obj ttl0 gen0 w s)"
  using assms
  by (cases "get_pc s")
    (auto simp: shared_inv_def get_move_def got_if_def Let_def split: prod.splits if_splits)

lemma shared_inv_check:
  assumes "shared_inv A J Z realloc key obj ttl0 gen0 w x s" and "reads_only A w"
  shows "shared_inv A J Z realloc key obj ttl0 gen0 w x (check_move A w s)"
proof -
  note ok = AS_OBJECT_STATUS_ok [of A x w] and after = check_object_alive [OF assms(2), of x]
  have i: "as_cfg (object s) = as_cfg x"
    "isalive (object s) = (if check_pc s = Check_over then isalive (fst (check_object A x w)) else isalive x)"
    "check_pc s = Check_query \<Longrightarrow> isalive x"
    "check_pc s \<in> {Check_reset, Check_connect} \<Longrightarrow> \<not> fst (AS_OBJECT_STATUS A x w)"
    using assms(1) by (simp_all only: shared_inv_def Let_def simp_thms)
  have "get_pc (check_move A w s) = get_pc s" "as_cfg (object (check_move A w s)) = as_cfg (object s)"
    by (simp_all add: check_move_def Let_def split: check_pc.split prod.split)
  moreover have
    "isalive (object (check_move A w s)) =
       (if check_pc (check_move A w s) = Check_over then isalive (fst (check_object A x w)) else isalive x) \<and>
     (check_pc (check_move A w s) = Check_query \<longrightarrow> isalive x) \<and>
     (check_pc (check_move A w s) \<in> {Check_reset, Check_connect} \<longrightarrow> \<not> fst (AS_OBJECT_STATUS A x w))"
  proof (cases "check_pc s")
    case Check_start
    then show ?thesis using i ok by (simp add: check_move_def)
  next
    case Check_query
    then show ?thesis using i ok after by (simp add: check_move_def Let_def split: prod.split)
  next
    case Check_reset
    then show ?thesis using i by (simp add: check_move_def)
  next
    case Check_connect
    then show ?thesis using i after by (simp add: check_move_def Let_def split: prod.split)
  next
    case Check_over
    then show ?thesis using i by (simp add: check_move_def)
  qed
  ultimately show ?thesis using assms(1) unfolding shared_inv_def Let_def by (simp only: simp_thms) blast
qed

lemma shared_inv_reachable:
  assumes "(race_move A J Z realloc key obj ttl0 gen0 w)\<^sup>*\<^sup>* (shared_start x) s" and "reads_only A w"
  shows "shared_inv A J Z realloc key obj ttl0 gen0 w x s"
  using assms(1)
proof (induction rule: rtranclp_induct)
  case base
  show ?case by (simp add: shared_inv_def shared_start_def)
next
  case (step s1 s2)
  from step(2,3) show ?case
    by (cases rule: race_move.cases) (simp_all add: shared_inv_get shared_inv_check [OF _ assms(2)])
qed

section \<open>Properties\<close>


lemma then_handler:
  "(race_move A J Z realloc key obj t g w)\<^sup>*\<^sup>* s0 s \<Longrightarrow>
     (race_move A J Z realloc key obj t g w)\<^sup>*\<^sup>* s0 (get_move A J Z realloc key obj t g w s)"
  by (erule rtranclp.rtrancl_into_rtrancl) (rule handler)

lemma then_checker:
  "(race_move A J Z realloc key obj t g w)\<^sup>*\<^sup>* s0 s \<Longrightarrow>
     (race_move A J Z realloc key obj t g w)\<^sup>*\<^sup>* s0 (check_move A w s)"
  by (erule rtranclp.rtrancl_into_rtrancl) (rule checker)

lemma cell_store_reads_only: "reads_only cell_store w"
  by (simp add: reads_only_def cell_store_def split: option.split)


end
