(* ===== verification/Resources.thy ===== *)
theory Resources
  imports Request_Handler Json_Util "HOL-Library.Multiset"
begin

text \<open>
  Who owns what: the heap blocks, the references to JSON values and the handles of the libraries
  that a request acquires and releases, in the order of the calls in \<open>request_handler.cpp\<close>,
  \<open>as_control.hpp\<close>, \<open>as_object.hpp\<close>, \<open>as_gzip.cpp\<close> and \<open>jsonutil.hpp\<close>. The events of a function are
  computed along the branches of its model. Objects of the C++ library that release themselves are left
  out. What a function of a library does to ownership is its documentation: \<open>json_object\<close>, \<open>json_loads\<close>
  and the other constructors of jansson return a reference the caller owns, a null pointer when they
  fail; \<open>json_object_set_new_nocheck\<close> takes over the reference of its value; a record takes over a value
  set in it, except for the text given to \<open>as_record_set_str\<close>; \<open>aerospike_key_get\<close> fills a record the
  caller must destroy when it succeeds.
\<close>

datatype resource =
    Json_root | Json_bins | Json_value | Json_text | Copy_text | Gz_text | Val_text | Double_text
  | Key_handle | Record_contents | Bin_value | Client_handle | Inflate_stream | Deflate_stream

text \<open>\<open>Give\<close>: the ownership goes over to an object the callee keeps.\<close>

datatype mem_event = Acquire resource | Release resource | Give resource

text \<open>The resources held after some events; \<open>None\<close> when one is released that is not held.\<close>

fun ledger :: "mem_event list \<Rightarrow> resource multiset \<Rightarrow> resource multiset option" where
  "ledger [] M = Some M"
| "ledger (Acquire r # es) M = ledger es (add_mset r M)"
| "ledger (Release r # es) M = (if r \<in># M then ledger es (M - {#r#}) else None)"
| "ledger (Give r # es) M = (if r \<in># M then ledger es (M - {#r#}) else None)"

text \<open>The events can run on any resources, and leave \<open>R\<close> in addition to those.\<close>

definition leaves :: "mem_event list \<Rightarrow> resource multiset \<Rightarrow> bool" where
  "leaves es R \<longleftrightarrow> (\<forall>M. ledger es M = Some (M + R))"

section \<open>Inflating and deflating\<close>

text \<open>\<open>held\<close>: \<open>s1\<close> is not null.\<close>

function gz_events :: "'z zlib \<Rightarrow> (nat \<Rightarrow> bool) \<Rightarrow> string \<Rightarrow> nat \<Rightarrow> nat \<Rightarrow> bool \<Rightarrow> mem_event list" where
  "gz_events Z realloc input len factor held =
     (let size = (len * 2 ^ factor) mod 2 ^ 64
      in if \<not> realloc size then (if held then [Release Gz_text] else [])
         else
           (let (st, out) = gz_attempt Z input (size mod 2 ^ 32)
            in (if held then [Release Gz_text] else []) @ [Acquire Gz_text] @
               (if fst (inflateInit2 Z (- MAX_WBITS)) = Z_OK Z then [Acquire Inflate_stream, Release Inflate_stream] else []) @
               (if st = Z_BUF_ERROR Z \<and> factor + 1 < 16
                then gz_events Z realloc input len (factor + 1) True else [])))"
  by pat_completeness auto
termination
  by (relation "measure (\<lambda>(Z, realloc, input, len, factor, held). 16 - factor)") auto

declare gz_events.simps [simp del]

definition gzdecode_events :: "'z zlib \<Rightarrow> (nat \<Rightarrow> bool) \<Rightarrow> string \<Rightarrow> nat \<Rightarrow> mem_event list" where
  "gzdecode_events Z realloc data len =
     gz_events Z realloc (take (len + 1) data) len 4 False @
     (case gz_loop Z realloc (take (len + 1) data) len 4 of
        None \<Rightarrow> []
      | Some (st, out) \<Rightarrow>
          if st = Z_OK Z then [Release Gz_text, Acquire Gz_text] else [Release Gz_text])"

definition compress_gzip_events :: "'z zlib \<Rightarrow> string \<Rightarrow> int \<Rightarrow> mem_event list" where
  "compress_gzip_events Z str compressionlevel =
     (if fst (deflateInit2 Z compressionlevel (15 + 16) 9 str) \<noteq> Z_OK Z then []
      else [Acquire Deflate_stream, Release Deflate_stream])"

section \<open>From a record to JSON\<close>

text \<open>A value from a constructor of jansson, put into an object.\<close>

definition put_events :: "'j option \<Rightarrow> mem_event list" where
  "put_events v = (case v of None \<Rightarrow> [] | Some j \<Rightarrow> [Acquire Json_value, Give Json_value])"

definition convert_string_events ::
  "'j jansson \<Rightarrow> 'z zlib \<Rightarrow> (nat \<Rightarrow> bool) \<Rightarrow> string \<Rightarrow> mem_event list" where
  "convert_string_events J Z realloc srcValue =
     (let base64dec = base64Decode srcValue
      in [Acquire Copy_text] @
         (if base64dec \<noteq> [] then
            (let gz = gzdecode Z realloc (base64dec @ [CHR 0x00]) (length base64dec)
             in gzdecode_events Z realloc (base64dec @ [CHR 0x00]) (length base64dec) @
                (case gz of
                   Inr (Some gzencode) \<Rightarrow> [Release Gz_text] @ put_events (json_loads J (c_str gzencode))
                 | _ \<Rightarrow> put_events (json_loads J (c_str base64dec))))
          else put_events (json_string J srcValue)) @
         [Release Copy_text])"

definition convert_bin_events ::
  "'j jansson \<Rightarrow> 'z zlib \<Rightarrow> (nat \<Rightarrow> bool) \<Rightarrow> string \<times> as_val \<Rightarrow> mem_event list" where
  "convert_bin_events J Z realloc bin =
     (let (name, value) = bin
      in if name = [] then []
         else
           (case value of
              As_boolean b \<Rightarrow> put_events (json_boolean J b)
            | As_integer i \<Rightarrow> put_events (json_integer J i)
            | As_string s \<Rightarrow>
                if as_string_len s = 0 then [] else convert_string_events J Z realloc (as_string_to_byte s)
            | As_bytes b \<Rightarrow> if b = [] then [] else put_events (json_loads J (c_str b))
            | As_list t \<Rightarrow> [Acquire Val_text] @ put_events (json_loads J (c_str t)) @ [Release Val_text]
            | As_map t \<Rightarrow> [Acquire Val_text] @ put_events (json_loads J (c_str t)) @ [Release Val_text]
            | _ \<Rightarrow> put_events (json_string J [])))"

fun convert_events :: "'j jansson \<Rightarrow> 'z zlib \<Rightarrow> (nat \<Rightarrow> bool) \<Rightarrow> (string \<times> as_val) list \<Rightarrow> mem_event list" where
  "convert_events J Z realloc [] = []"
| "convert_events J Z realloc (bin # rest) = convert_bin_events J Z realloc bin @ convert_events J Z realloc rest"

section \<open>The operations on a record\<close>

definition GET_events ::
  "'w aerospike \<Rightarrow> 'j jansson \<Rightarrow> 'z zlib \<Rightarrow> (nat \<Rightarrow> bool) \<Rightarrow> as_object \<Rightarrow> string \<Rightarrow> string \<Rightarrow> string \<Rightarrow>
     'w \<Rightarrow> mem_event list" where
  "GET_events A J Z realloc x ns s userid w =
     (if \<not> isalive x then []
      else
        (let (st, err, rec, w') = aerospike_key_get A (as_cfg x) (as_key_init ns s userid) w
         in [Acquire Key_handle] @ (if st = AEROSPIKE_OK A then [Acquire Record_contents] else []) @
            [Release Key_handle] @
            (if st \<noteq> AEROSPIKE_OK A then []
             else convert_events J Z realloc (bins rec) @ [Release Record_contents])))"

text \<open>The record is never destroyed.\<close>

definition STATUS_events :: "'w aerospike \<Rightarrow> as_object \<Rightarrow> 'w \<Rightarrow> mem_event list" where
  "STATUS_events A x w =
     (if \<not> isalive x then []
      else
        (let (st, err, rec, w') = aerospike_key_get A (as_cfg x) (as_key_init ''ns'' ''set'' ''key'') w
         in [Acquire Key_handle] @ (if st = AEROSPIKE_OK A then [Acquire Record_contents] else []) @
            [Release Key_handle]))"

text \<open>The text of a real number is allocated by \<open>doubleToLPSTR\<close>, and the record only refers to it.\<close>

definition put_value_events :: "'j jansson \<Rightarrow> 'j \<Rightarrow> mem_event list" where
  "put_value_events J value =
     (case json_typeof J value of
        JSON_INTEGER \<Rightarrow> [Acquire Bin_value, Give Bin_value]
      | JSON_STRING \<Rightarrow> []
      | JSON_REAL \<Rightarrow> [Acquire Double_text]
      | JSON_NULL \<Rightarrow> []
      | JSON_TRUE \<Rightarrow> [Acquire Bin_value, Give Bin_value]
      | JSON_FALSE \<Rightarrow> [Acquire Bin_value, Give Bin_value]
      | _ \<Rightarrow> [Acquire Json_text, Acquire Bin_value, Give Json_text, Give Bin_value])"

definition PUT_events :: "'j jansson \<Rightarrow> as_object \<Rightarrow> 'j \<Rightarrow> mem_event list" where
  "PUT_events J x json_load =
     (if \<not> isalive x then []
      else if json_object_size J json_load = 0 then []
      else [Acquire Key_handle] @ concat (map (\<lambda>(n, v). put_value_events J v) (json_object_items J json_load)) @
        [Release Key_handle])"

section \<open>A request\<close>

definition GetAsObject_events :: "'t \<Rightarrow> 't as_control \<Rightarrow> mem_event list" where
  "GetAsObject_events t c = (if rAsList c t = None then [Acquire Client_handle, Give Client_handle] else [])"

definition handle_get_events ::
  "('j, 'w, 'z) libs \<Rightarrow> 't \<Rightarrow> (string \<rightharpoonup> string) \<Rightarrow> 't as_control \<Rightarrow> 'w \<Rightarrow> mem_event list" where
  "handle_get_events L t params c w =
     (let A = lib_as L; J = lib_json L; (c1, w1) = GetAsObject A t c w;
          ns = map_get params ''ns'' []; st = map_get params ''set'' []; key = map_get params ''key'' []
      in [Acquire Json_bins] @ GetAsObject_events t c @
         (case rAsList c1 t of
            None \<Rightarrow> [Release Json_bins]
          | Some x \<Rightarrow>
              GET_events A J (lib_zlib L) (lib_realloc L) x ns st key w1 @
              (case GET A J (lib_zlib L) (lib_realloc L) x ns st key (json_object J) 0 0 w1 of
                 Inl e \<Rightarrow> []
               | Inr (nAsRet, x', results, ttl', gen', w2) \<Rightarrow>
                   if json_object_size J results > 0 then [Give Json_bins] else [Release Json_bins])))"

definition handle_request_events ::
  "('j, 'w, 'z) libs \<Rightarrow> 't \<Rightarrow> request \<Rightarrow> 't as_control \<times> 'w \<Rightarrow> mem_event list" where
  "handle_request_events L t req s =
     (let (c, w) = s; J = lib_json L;
          (tv0, w0) = lib_clock L w;
          (urlfile, params) = split_uri (lib_boost L) (uri req);
          api = to_lower_copy (lib_boost L) urlfile
      in [Acquire Json_root] @
         (if api = ''/status'' then put_events (json_integer J 100) @ put_events (json_string J ''OK'')
          else if api = ''/get'' then handle_get_events L t params c w0 else []) @
         (case handle_api L t api params c w0 of
            Inl e \<Rightarrow> []
          | Inr (base, c1, w1) \<Rightarrow>
              (let (tv1, w2) = lib_clock L w1
               in put_events (json_real J (seconds_since (lib_rounding L) tv1 (now tv0))))) @
         [Acquire Json_text, Release Json_text, Release Json_root])"

section \<open>The accessors of jsonutil.hpp\<close>

definition JSON_FREE_events :: "'j option \<Rightarrow> mem_event list" where
  "JSON_FREE_events obj0 = (case obj0 of Some j \<Rightarrow> [Release Json_value] | None \<Rightarrow> [])"

text \<open>\<open>json_object_get\<close> lends its result, \<open>json_deep_copy\<close> returns one the caller owns.\<close>

definition GET_JSON_OBJECT_events :: "'j jansson \<Rightarrow> 'j option \<Rightarrow> string \<Rightarrow> mem_event list" where
  "GET_JSON_OBJECT_events J obj0 key =
     (case GET_JSON_OBJECT J obj0 key of Some j \<Rightarrow> [Acquire Json_value] | None \<Rightarrow> [])"

definition GET_JSON_OBJECT_NO_COPY_events :: "'j jansson \<Rightarrow> 'j option \<Rightarrow> string \<Rightarrow> mem_event list" where
  "GET_JSON_OBJECT_NO_COPY_events J obj0 key = []"

section \<open>Lemmas\<close>

lemma ledger_append: "ledger (es @ fs) M = Option.bind (ledger es M) (ledger fs)"
  by (induction es M rule: ledger.induct) simp_all

lemma leaves_ledger: "leaves es R \<Longrightarrow> ledger (es @ fs) M = ledger fs (M + R)"
  by (simp add: leaves_def ledger_append)

lemma leaves_Nil: "leaves [] {#}"
  by (simp add: leaves_def)

lemma leaves_append: "leaves es R \<Longrightarrow> leaves fs S \<Longrightarrow> leaves (es @ fs) (R + S)"
  by (simp add: leaves_def ledger_append ac_simps)

lemma balanced_append: "leaves es {#} \<Longrightarrow> leaves fs {#} \<Longrightarrow> leaves (es @ fs) {#}"
  using leaves_append [of es "{#}" fs "{#}"] by simp

lemma balanced_within: "leaves es {#} \<Longrightarrow> leaves (Acquire r # es @ [Release r]) {#}"
  "leaves es {#} \<Longrightarrow> leaves (Acquire r # es @ [Give r]) {#}"
  by (simp_all add: leaves_def ledger_append)

lemmas balanced = leaves_Nil balanced_append balanced_within

lemma leaves_put [simp]: "leaves (put_events v) {#}"
  by (simp add: leaves_def put_events_def split: option.split)

lemma gz_events_ledger:
  "ledger (gz_events Z realloc input len factor held) (if held then add_mset Gz_text M else M) =
     Some (if gz_loop Z realloc input len factor = None then M else add_mset Gz_text M)"
proof (induction Z realloc input len factor arbitrary: held rule: gz_loop.induct)
  case (1 Z realloc input len factor)
  let ?size = "(len * 2 ^ factor) mod 2 ^ 64"
  obtain st out where a: "gz_attempt Z input (?size mod 2 ^ 32) = (st, out)" by fastforce
  show ?case
  proof (cases "realloc ?size \<and> st = Z_BUF_ERROR Z \<and> factor + 1 < 16")
    case True
    then have "ledger (gz_events Z realloc input len (factor + 1) True) (add_mset Gz_text M) =
        Some (if gz_loop Z realloc input len (factor + 1) = None then M else add_mset Gz_text M)"
      using "1.IH" [OF refl _ refl a [symmetric], of True] a by auto
    then show ?thesis
      using True a by (subst gz_events.simps, subst gz_loop.simps) (simp add: Let_def ledger_append)
  next
    case False
    then show ?thesis
      using a by (subst gz_events.simps, subst gz_loop.simps) (auto simp: Let_def ledger_append)
  qed
qed

lemma leaves_gzdecode:
  assumes "gzdecode Z realloc data len = Inr res"
  shows "leaves (gzdecode_events Z realloc data len) (if res = None then {#} else {#Gz_text#})"
proof -
  have "ledger (gz_events Z realloc (take (len + 1) data) len 4 False) M =
      Some (if gz_loop Z realloc (take (len + 1) data) len 4 = None then M else add_mset Gz_text M)" for M
    using gz_events_ledger [of Z realloc "take (len + 1) data" len 4 False M] by simp
  then show ?thesis
    using assms unfolding leaves_def gzdecode_events_def ledger_append
    by (auto simp: gzdecode_def split: if_splits option.splits)
qed

lemma leaves_compress: "leaves (compress_gzip_events Z str level) {#}"
  by (simp add: compress_gzip_events_def leaves_def)

lemma leaves_convert_string:
  assumes "convert_string J Z realloc srcValue = Inr r"
  shows "leaves (convert_string_events J Z realloc srcValue) {#}"
proof (cases "base64Decode srcValue = []")
  case True
  then show ?thesis by (simp add: convert_string_events_def balanced_within(1))
next
  case False
  let ?d = "base64Decode srcValue"
  obtain res where g: "gzdecode Z realloc (?d @ [CHR 0x00]) (length ?d) = Inr res"
    using assms False by (auto simp: convert_string_def Let_def split: sum.splits)
  have "leaves (gzdecode_events Z realloc (?d @ [CHR 0x00]) (length ?d) @
      (case res of Some gz \<Rightarrow> [Release Gz_text] @ put_events (json_loads J (c_str gz))
       | None \<Rightarrow> put_events (json_loads J (c_str ?d)))) {#}"
    using leaves_gzdecode [OF g] leaves_put
    by (auto simp: leaves_def ledger_append split: option.splits)
  from balanced_within(1) [OF this, of Copy_text] show ?thesis
    using False g by (simp add: convert_string_events_def Let_def split: option.splits)
qed

lemma leaves_convert_bin:
  assumes "convert_bin J Z realloc bin obj = Inr obj'"
  shows "leaves (convert_bin_events J Z realloc bin) {#}"
proof -
  obtain name v where b: "bin = (name, v)" by (cases bin)
  show ?thesis
  proof (cases v)
    case (As_string t)
    then show ?thesis
      using assms leaves_convert_string [of J Z realloc "as_string_to_byte t"]
      by (cases "convert_string J Z realloc (as_string_to_byte t)")
        (auto simp: b convert_bin_events_def convert_bin_def leaves_Nil Let_def split: if_splits)
  qed (simp_all add: b convert_bin_events_def leaves_Nil balanced_within(1))
qed

lemma leaves_convert:
  "data_convert_to_json_v1 J Z realloc bs obj = Inr obj' \<Longrightarrow> leaves (convert_events J Z realloc bs) {#}"
proof (induction bs arbitrary: obj)
  case Nil
  then show ?case by (simp add: leaves_Nil)
next
  case (Cons b bs)
  then show ?case by (auto split: sum.splits intro: balanced_append leaves_convert_bin)
qed

lemma leaves_GET:
  assumes "GET A J Z realloc x ns st k obj t g w = Inr res"
  shows "leaves (GET_events A J Z realloc x ns st k w) {#}"
proof -
  obtain s err rec w' where get: "aerospike_key_get A (as_cfg x) (as_key_init ns st k) w = (s, err, rec, w')"
    by (cases "aerospike_key_get A (as_cfg x) (as_key_init ns st k) w")
  show ?thesis
  proof (cases "isalive x \<and> s = AEROSPIKE_OK A")
    case True
    then obtain obj' where "data_convert_to_json_v1 J Z realloc (bins rec) obj = Inr obj'"
      using assms get by (auto simp: GET_def Let_def split: sum.splits)
    then have "leaves (convert_events J Z realloc (bins rec)) {#}" by (rule leaves_convert)
    then show ?thesis using True get by (simp add: GET_events_def leaves_def ledger_append)
  next
    case False
    then show ?thesis using get by (auto simp: GET_events_def leaves_def)
  qed
qed

lemma leaves_handle_get:
  assumes "handle_get L t params base c w = Inr res"
  shows "leaves (handle_get_events L t params c w) {#}"
proof -
  obtain c1 w1 where g: "GetAsObject (lib_as L) t c w = (c1, w1)" by fastforce
  have o: "leaves (GetAsObject_events t c) {#}" by (simp add: GetAsObject_events_def leaves_def)
  show ?thesis
  proof (cases "rAsList c1 t")
    case None
    then show ?thesis using g balanced_within(1) [OF o] by (simp add: handle_get_events_def)
  next
    case (Some x)
    let ?G = "GET (lib_as L) (lib_json L) (lib_zlib L) (lib_realloc L) x (map_get params ''ns'' [])
      (map_get params ''set'' []) (map_get params ''key'' []) (json_object (lib_json L)) 0 0 w1"
    obtain r where r: "?G = Inr r" using assms g Some by (auto simp: handle_get_def Let_def split: sum.splits)
    have "leaves (GetAsObject_events t c @ GET_events (lib_as L) (lib_json L) (lib_zlib L) (lib_realloc L) x
        (map_get params ''ns'' []) (map_get params ''set'' []) (map_get params ''key'' []) w1) {#}"
      by (rule balanced_append [OF o leaves_GET [OF r]])
    from balanced_within [OF this, of Json_bins] show ?thesis
      using g Some r by (simp add: handle_get_events_def Let_def split: prod.split)
  qed
qed

lemma leaves_handle_request:
  assumes "handle_request L t req rep ka s = Inr res"
  shows "leaves (handle_request_events L t req s) {#}"
proof -
  obtain c w where s: "s = (c, w)" by (cases s)
  obtain tv0 w0 where clk: "lib_clock L w = (tv0, w0)" by fastforce
  obtain u params where sp: "split_uri (lib_boost L) (uri req) = (u, params)" by fastforce
  let ?api = "to_lower_copy (lib_boost L) u"
  let ?branch = "if ?api = ''/status''
    then put_events (json_integer (lib_json L) 100) @ put_events (json_string (lib_json L) ''OK'')
    else if ?api = ''/get'' then handle_get_events L t params c w0 else []"
  obtain base c1 w1 where api: "handle_api L t ?api params c w0 = Inr (base, c1, w1)"
    using assms s clk sp by (auto simp: handle_request_def Let_def split: sum.splits)
  then have b: "leaves ?branch {#}"
    by (auto simp: handle_api_def Let_def intro: balanced_append leaves_Nil leaves_handle_get split: if_splits)
  obtain tv1 w2 where clk1: "lib_clock L w1 = (tv1, w2)" by fastforce
  let ?took = "put_events (json_real (lib_json L) (seconds_since (lib_rounding L) tv1 (now tv0)))"
  have "handle_request_events L t req s =
      Acquire Json_root # (?branch @ ?took @ [Acquire Json_text, Release Json_text]) @ [Release Json_root]"
    using s clk sp api clk1 by (simp add: handle_request_events_def Let_def)
  moreover have "leaves [Acquire Json_text, Release Json_text] {#}" by (simp add: leaves_def)
  then have "leaves (Acquire Json_root # (?branch @ ?took @ [Acquire Json_text, Release Json_text]) @ [Release Json_root]) {#}"
    by (intro balanced_within(1) balanced_append b leaves_put)
  ultimately show ?thesis by simp
qed

lemma leaves_replicate: "leaves (replicate n (Acquire r)) (replicate_mset n r)"
  by (induction n) (simp_all add: leaves_def)

lemma leaves_PUT:
  "leaves (PUT_events J x j)
     (if isalive x then replicate_mset (length (filter (\<lambda>(n, v). json_typeof J v = JSON_REAL) (json_object_items J j))) Double_text
      else {#})"
proof -
  let ?reals = "\<lambda>kvs. length (filter (\<lambda>(n, v). json_typeof J v = JSON_REAL) kvs)"
  have v: "leaves (put_value_events J v) (if json_typeof J v = JSON_REAL then {#Double_text#} else {#})" for v
    by (simp add: put_value_events_def leaves_def split: json_type.split)
  have "leaves (concat (map (\<lambda>(n, v). put_value_events J v) kvs)) (replicate_mset (?reals kvs) Double_text)" for kvs
  proof (induction kvs)
    case Nil
    then show ?case by (simp add: leaves_def)
  next
    case (Cons kv kvs)
    then show ?case
      using leaves_append [OF v [of "snd kv"] Cons.IH] by (cases kv) (simp split: if_splits)
  qed
  from this [of "json_object_items J j"] show ?thesis
    by (auto simp: PUT_events_def leaves_def ledger_append json_object_size_def)
qed

section \<open>Properties\<close>

text \<open>
  A request leaks nothing and frees nothing twice: on every path through the handler that returns,
  and through the conversions of whatever record the database has, each block, each reference to a
  JSON value and each handle is released or handed over exactly once, and nothing else is.
\<close>

theorem request_leaks_nothing:
  assumes "handle_request L t req rep ka s = Inr res"
  shows "ledger (handle_request_events L t req s) M = Some M"
  using leaves_handle_request [OF assms] by (simp add: leaves_def)

lemma request_leaks_nothing_witness:
  "ledger (handle_request_events sample_libs (1 :: nat) (uri_request ''/status?'') (sample_control, None)) {#Client_handle#} =
     Some {#Client_handle#}"
  by (rule request_leaks_nothing [OF sample_status])


text \<open>The periodic check over the pool, in the order of the loop.\<close>

fun sweep_events :: "'w aerospike \<Rightarrow> 't list \<Rightarrow> ('t \<rightharpoonup> as_object) \<Rightarrow> 'w \<Rightarrow> mem_event list" where
  "sweep_events A [] m w = []"
| "sweep_events A (t # ts) m w =
     (case m t of
        None \<Rightarrow> sweep_events A ts m w
      | Some x \<Rightarrow>
          (let (ok, x1, w1) = AS_OBJECT_STATUS A x w;
               (x2, w2) = (if \<not> ok then AS_OBJECT_RECONNECT A x1 w1 else (x1, w1))
           in STATUS_events A x w @ sweep_events A ts (m(t \<mapsto> x2)) w2))"

lemma leaves_STATUS:
  "leaves (STATUS_events A x w)
     (if isalive x \<and> fst (aerospike_key_get A (as_cfg x) (as_key_init ''ns'' ''set'' ''key'') w) = AEROSPIKE_OK A
      then {#Record_contents#} else {#})"
  by (auto simp: STATUS_events_def leaves_def split: prod.split)

lemma leaves_sweep:
  assumes "\<And>cfg w. fst (aerospike_key_get A cfg (as_key_init ''ns'' ''set'' ''key'') w) = AEROSPIKE_OK A"
  shows "distinct order \<Longrightarrow> leaves (sweep_events A order m w)
    (replicate_mset (length (filter (\<lambda>t. \<exists>x. m t = Some x \<and> isalive x) order)) Record_contents)"
proof (induction order arbitrary: m w)
  case Nil
  then show ?case by (simp add: leaves_Nil)
next
  case (Cons t ts)
  show ?case
  proof (cases "m t")
    case None
    then show ?thesis using Cons by simp
  next
    case (Some x)
    obtain ok x1 w1 where st: "AS_OBJECT_STATUS A x w = (ok, x1, w1)" by (cases "AS_OBJECT_STATUS A x w")
    obtain x2 w2 where x2: "(if \<not> ok then AS_OBJECT_RECONNECT A x1 w1 else (x1, w1)) = (x2, w2)" by fastforce
    have same: "filter (\<lambda>u. \<exists>y. (m(t \<mapsto> x2)) u = Some y \<and> isalive y) ts =
        filter (\<lambda>u. \<exists>y. m u = Some y \<and> isalive y) ts"
      using Cons.prems by (intro filter_cong refl) auto
    have "leaves (sweep_events A ts (m(t \<mapsto> x2)) w2)
        (replicate_mset (length (filter (\<lambda>u. \<exists>y. m u = Some y \<and> isalive y) ts)) Record_contents)"
      using Cons.IH [of "m(t \<mapsto> x2)" w2] Cons.prems unfolding same distinct.simps by blast
    from leaves_append [OF leaves_STATUS [of A x w] this] show ?thesis
      using Some st x2 assms by (simp split: if_splits)
  qed
qed

text \<open>
  The health check leaks the record it reads: when the record it probes for exists, one round of
  it over the pool leaves the contents of one record behind for each live object.
\<close>

theorem check_leaks_records:
  assumes "\<And>cfg w. fst (aerospike_key_get A cfg (as_key_init ''ns'' ''set'' ''key'') w) = AEROSPIKE_OK A"
    and "distinct order"
  shows "ledger (sweep_events A order m w) M =
    Some (M + replicate_mset (length (filter (\<lambda>t. \<exists>x. m t = Some x \<and> isalive x) order)) Record_contents)"
  using leaves_sweep [OF assms] by (simp add: leaves_def)

text \<open>A database in which every key has an empty record.\<close>

definition full_store :: "as_record option aerospike" where
  "full_store = cell_store\<lparr>aerospike_key_get := (\<lambda>c k w. (0, 0, \<lparr>bins = [], gen = 1, ttl = 1\<rparr>, w))\<rparr>"

lemma check_leaks_records_witness:
  "ledger (sweep_events full_store [1, 2 :: nat] [1 \<mapsto> sample_object, 2 \<mapsto> sample_object] None) {#} =
     Some {#Record_contents, Record_contents#}"
proof -
  have "fst (aerospike_key_get full_store cfg (as_key_init ''ns'' ''set'' ''key'') w) = AEROSPIKE_OK full_store" for cfg w
    by (simp add: full_store_def cell_store_def)
  then have "ledger (sweep_events full_store [1, 2 :: nat] [1 \<mapsto> sample_object, 2 \<mapsto> sample_object] None) {#} =
    Some ({#} + replicate_mset (length (filter (\<lambda>t. \<exists>x. [1 \<mapsto> sample_object, 2 \<mapsto> sample_object] t = Some x \<and> isalive x) [1, 2 :: nat]))
      Record_contents)"
    by (rule check_leaks_records) simp
  then show ?thesis by (simp add: sample_object_def numeral_2_eq_2)
qed

text \<open>
  A copy from \<open>GET_JSON_OBJECT\<close> is the caller's and \<open>JSON_FREE\<close> gives it back; the result of
  \<open>GET_JSON_OBJECT_NO_COPY\<close> is only lent, and a caller who frees it frees what it does not own.
\<close>

lemma accessor_ownership:
  "ledger (GET_JSON_OBJECT_events J j key @ JSON_FREE_events (GET_JSON_OBJECT J j key)) M = Some M"
  "ledger (GET_JSON_OBJECT_NO_COPY_events J j key @ JSON_FREE_events (Some v)) {#} = None"
  by (simp_all add: GET_JSON_OBJECT_events_def GET_JSON_OBJECT_NO_COPY_events_def JSON_FREE_events_def
      split: option.split)

end
