(* ===== verification/Run_Resources.thy ===== *)
theory Run_Resources
  imports Concurrent_Get Resources
begin

text \<open>
  Ownership over a whole run of the server: the events of \<open>Resources\<close>, collected along any interleaving
  of \<open>Proxy\<close>. A connection and its buffers belong to shared pointers and release themselves.
\<close>

definition handle_read_events ::
  "('j, 'w, 'z) libs \<Rightarrow> 't \<Rightarrow> bool \<Rightarrow> string \<Rightarrow> int \<Rightarrow> connection \<Rightarrow> 't as_control \<times> 'w \<Rightarrow> mem_event list" where
  "handle_read_events L t e bytes time conn s =
     (if e then []
      else
        (case parse (conn_parser conn) (conn_request conn) bytes of
           Inr (Some True, p, r, rest) \<Rightarrow> handle_request_events L t (r\<lparr>tstamp := time\<rparr>) s
         | _ \<Rightarrow> []))"

fun completion_events ::
  "('j, 'w, 'z) libs \<Rightarrow> 't \<Rightarrow> event \<Rightarrow> connection \<Rightarrow> 't as_control \<times> 'w \<Rightarrow> mem_event list" where
  "completion_events L t (Read_done e bytes time) conn s =
     (if pending conn = Pending_read then handle_read_events L t e bytes time conn s else [])"
| "completion_events L t (Write_done e) conn s = []"

definition handle_timer_events :: "'w aerospike \<Rightarrow> 't list \<Rightarrow> 't server \<Rightarrow> 'w \<Rightarrow> mem_event list" where
  "handle_timer_events A order s w = (if \<not> isHandleStop s then sweep_events A order (rAsList (asOP s)) w else [])"

fun action_events :: "('j, 'w, 'z) libs \<Rightarrow> 't action \<Rightarrow> 't proxy \<Rightarrow> 'w \<Rightarrow> mem_event list" where
  "action_events L (Completed t i ev) p w =
     (case conns p i of
        None \<Rightarrow> []
      | Some conn \<Rightarrow> if io_stopped (srv p) then [] else completion_events L t ev conn (asOP (srv p), w))"
| "action_events L (Tick order) p w =
     (if \<not> io_stopped (srv p) \<and> timer_wait (srv p) then handle_timer_events (lib_as L) order (srv p) w else [])"
| "action_events L _ p w = []"

fun run_events :: "('j, 'w, 'z) libs \<Rightarrow> 't action list \<Rightarrow> 't proxy \<Rightarrow> 'w \<Rightarrow> mem_event list" where
  "run_events L [] p w = []"
| "run_events L (a # as) p w =
     action_events L a p w @
     (case proxy_act L a p w of Inl e \<Rightarrow> [] | Inr (p', w') \<Rightarrow> run_events L as p' w')"

section \<open>Lemmas\<close>

lemma replicate_mset_sum: "replicate_mset m x + replicate_mset n x = replicate_mset (m + n) x"
  by (induction m) simp_all

lemma leaves_handle_read:
  assumes "handle_read B (handle_request L t) e bytes time conn s = Inr res"
  shows "leaves (handle_read_events L t e bytes time conn s) {#}"
proof (cases "\<exists>p r rest. \<not> e \<and> parse (conn_parser conn) (conn_request conn) bytes = Inr (Some True, p, r, rest)")
  case True
  then obtain p r rest where "\<not> e" "parse (conn_parser conn) (conn_request conn) bytes = Inr (Some True, p, r, rest)"
    by blast
  moreover from this obtain res' where
    "handle_request L t (r\<lparr>tstamp := time\<rparr>) (conn_reply conn) (want_keepalive B r) s = Inr res'"
    using assms by (auto simp: handle_read_def Let_def split: sum.splits)
  from leaves_handle_request [OF this] have "leaves (handle_request_events L t (r\<lparr>tstamp := time\<rparr>) s) {#}" .
  ultimately show ?thesis by (simp add: handle_read_events_def)
next
  case False
  then show ?thesis
    by (auto simp: handle_read_events_def leaves_Nil split: sum.split option.split bool.split)
qed

lemma leaves_completion:
  "conn_event B (handle_request L t) ev conn s = Inr res \<Longrightarrow> leaves (completion_events L t ev conn s) {#}"
  by (cases ev) (auto simp: leaves_Nil leaves_handle_read split: if_splits)

lemma leaves_action:
  assumes "proxy_act L a p w = Inr res" and "\<not> (\<exists>order. a = Tick order)"
  shows "leaves (action_events L a p w) {#}"
  using assms
  by (cases a) (auto simp: leaves_Nil intro: leaves_completion split: option.split option.splits if_splits sum.splits)

lemma leaves_sweep_absent:
  assumes "\<And>cfg w. fst (aerospike_key_get A cfg (as_key_init ''ns'' ''set'' ''key'') w) \<noteq> AEROSPIKE_OK A"
  shows "leaves (sweep_events A order m w) {#}"
proof (induction order arbitrary: m w)
  case (Cons t ts)
  have "leaves (STATUS_events A x w) {#}" for x
    using leaves_STATUS [of A x w] assms by simp
  then show ?case
    using Cons by (auto simp: Let_def intro: balanced_append split: option.split prod.split)
qed (simp add: leaves_Nil)

lemma leaves_sweep_healthy:
  assumes "keeps_record L I (as_key_init ''ns'' ''set'' ''key'') bs"
  shows "I w \<Longrightarrow> (\<forall>t x. m t = Some x \<longrightarrow> isalive x) \<Longrightarrow> distinct order \<Longrightarrow> set order \<subseteq> dom m \<Longrightarrow>
    leaves (sweep_events (lib_as L) order m w) (replicate_mset (length order) Record_contents)"
proof (induction order arbitrary: m w)
  case Nil
  then show ?case by (simp add: leaves_Nil)
next
  case (Cons t ts)
  then obtain x where x: "m t = Some x" "isalive x" by auto
  obtain ok x1 w1 where st: "AS_OBJECT_STATUS (lib_as L) x w = (ok, x1, w1)" by (cases "AS_OBJECT_STATUS (lib_as L) x w")
  obtain x2 w2 where x2: "(if \<not> ok then AS_OBJECT_RECONNECT (lib_as L) x1 w1 else (x1, w1)) = (x2, w2)" by fastforce
  have "sweep (AS_OBJECT_STATUS (lib_as L)) (AS_OBJECT_RECONNECT (lib_as L)) [t] m w = (m(t \<mapsto> x2), w2)"
    using x(1) st x2 by simp
  from sweep_keeps [OF assms Cons.prems(1,2) this] have k: "I w2" "\<forall>u y. (m(t \<mapsto> x2)) u = Some y \<longrightarrow> isalive y" by blast+
  have "leaves (sweep_events (lib_as L) ts (m(t \<mapsto> x2)) w2) (replicate_mset (length ts) Record_contents)"
    by (rule Cons.IH [OF k]) (use Cons.prems in auto)
  moreover have "leaves (STATUS_events (lib_as L) x w) {#Record_contents#}"
    using leaves_STATUS [of "lib_as L" x w] keeps_recordD(5) [OF assms Cons.prems(1), of "as_cfg x"] x(2) by auto
  ultimately show ?case
    using leaves_append [of "STATUS_events (lib_as L) x w" "{#Record_contents#}"] x(1) st x2 by simp
qed

lemma runs_without_stop:
  assumes "proxy_act L a p w = Inr (p', w')" and "a \<noteq> Signalled" and "proxy_inv p" and "\<not> io_stopped (srv p)"
  shows "\<not> io_stopped (srv p')"
  using assms
  by (cases a) (auto simp: accept_connection_def handle_accept_def start_accept_def Let_def handle_timer_def
      split: if_splits option.splits sum.splits prod.splits)

fun is_tick :: "'t action \<Rightarrow> bool" where
  "is_tick (Tick order) = True"
| "is_tick _ = False"

lemma leaves_run_absent:
  assumes "\<And>cfg w. fst (aerospike_key_get (lib_as L) cfg (as_key_init ''ns'' ''set'' ''key'') w) \<noteq> AEROSPIKE_OK (lib_as L)"
  shows "proxy_run L as p w = Inr res \<Longrightarrow> leaves (run_events L as p w) {#}"
proof (induction as arbitrary: p w)
  case (Cons a as)
  then obtain p1 w1 where a: "proxy_act L a p w = Inr (p1, w1)" by (auto split: sum.splits)
  have "leaves (action_events L a p w) {#}"
  proof (cases "\<exists>order. a = Tick order")
    case True
    then show ?thesis using leaves_sweep_absent [OF assms] by (auto simp: handle_timer_events_def leaves_Nil)
  next
    case False
    then show ?thesis by (rule leaves_action [OF a])
  qed
  with Cons a show ?case by (auto intro: balanced_append)
qed (simp add: leaves_Nil)

lemma leaves_run_healthy:
  assumes "keeps_record L I (as_key_init ''ns'' ''set'' ''key'') bs"
  shows "healthy I (asOP (srv p)) w \<Longrightarrow> proxy_inv p \<Longrightarrow> \<not> io_stopped (srv p) \<Longrightarrow> Signalled \<notin> set as \<Longrightarrow>
    \<forall>t i ev. Completed t i ev \<in> set as \<longrightarrow> t \<in> dom (objects_of p) \<Longrightarrow>
    \<forall>order. Tick order \<in> set as \<longrightarrow> distinct order \<and> set order = dom (objects_of p) \<Longrightarrow>
    proxy_run L as p w = Inr res \<Longrightarrow>
    leaves (run_events L as p w)
      (replicate_mset (length (filter is_tick as) * card (dom (objects_of p))) Record_contents)"
proof (induction as arbitrary: p w)
  case Nil
  then show ?case by (simp add: leaves_Nil)
next
  case (Cons a as)
  obtain p1 w1 where a: "proxy_act L a p w = Inr (p1, w1)" and r: "proxy_run L as p1 w1 = Inr res"
    using Cons.prems(7) by (auto split: sum.splits)
  have ns: "a \<noteq> Signalled" using Cons.prems(4) by auto
  have "{t. runs_on t a} \<subseteq> dom (objects_of p)"
    using Cons.prems(5) by (cases a) auto
  then have d: "dom (objects_of p1) = dom (objects_of p)"
    using pool_act(1) [OF a] unfolding pool_step_def by blast
  let ?n = "card (dom (objects_of p))"
  have rest: "leaves (run_events L as p1 w1) (replicate_mset (length (filter is_tick as) * ?n) Record_contents)"
    unfolding d [symmetric]
    by (rule Cons.IH [OF proxy_act_keeps [OF assms Cons.prems(1) a] proxy_inv_act [OF Cons.prems(2) a]
          runs_without_stop [OF a ns Cons.prems(2,3)] _ _ _ r])
      (use Cons.prems(4-6) d in auto)
  have "leaves (action_events L a p w) (replicate_mset (if is_tick a then ?n else 0) Record_contents)"
  proof (cases "\<exists>order. a = Tick order")
    case True
    then obtain order where o: "a = Tick order" by blast
    then have "distinct order" "set order = dom (rAsList (asOP (srv p)))"
      using Cons.prems(6) by (auto simp: objects_of_def)
    moreover have "timer_wait (srv p)" "\<not> isHandleStop (srv p)"
      using Cons.prems(2,3) by (auto simp: proxy_inv_def server_inv_def)
    ultimately show ?thesis
      using leaves_sweep_healthy [OF assms, of w "rAsList (asOP (srv p))" order] Cons.prems(1,3) o
      by (simp add: handle_timer_events_def healthy_def alive_pool_def objects_of_def distinct_card [symmetric])
  next
    case False
    then have "\<not> is_tick a" by (cases a) auto
    then show ?thesis using leaves_action [OF a False] by simp
  qed
  from leaves_append [OF this rest] show ?case
    using a by (simp add: replicate_mset_sum split: if_splits)
qed

section \<open>Properties\<close>

text \<open>
  C11: the server leaks nothing while it runs, when the record its health check looks for does not
  exist: over any interleaving of the clients' sessions, accepts, health checks and the stop, whatever
  the clients send and the database has, each block, each reference to a JSON value and each handle is
  released or handed over exactly once.
\<close>

theorem run_leaks_nothing:
  assumes "\<And>cfg w. fst (aerospike_key_get (lib_as L) cfg (as_key_init ''ns'' ''set'' ''key'') w) \<noteq> AEROSPIKE_OK (lib_as L)"
    and "proxy_run L as p w = Inr res"
  shows "ledger (run_events L as p w) M = Some M"
  using leaves_run_absent [OF assms] by (simp add: leaves_def)

text \<open>For the witnesses: a check before and after the end of a connection.\<close>

definition checked_actions :: "nat action list" where
  "checked_actions = [Tick [1, 2], Completed 1 1 (Read_done True [] 0), Tick [2, 1]]"

lemma checked_run: "\<exists>res. proxy_run L checked_actions (pooled_proxy x) w = Inr res"
proof -
  have "\<exists>res. proxy_run L [Tick [2, 1]] q v = Inr res" for q :: "nat proxy" and v
    by (simp split: prod.split)
  moreover have "\<exists>q' v'. proxy_act L (Completed 1 1 (Read_done True [] 0)) q v = Inr (q', v')" for q :: "nat proxy" and v
    by (simp add: handle_read_def split: option.split)
  moreover have "\<exists>q' v'. proxy_act L (Tick [1, 2]) q v = Inr (q', v')" for q :: "nat proxy" and v
    by (simp split: prod.split)
  ultimately show ?thesis unfolding checked_actions_def proxy_run.simps(2) by (metis sum.case(2) prod.case)
qed

lemma run_leaks_nothing_witness:
  "ledger (run_events empty_libs checked_actions (pooled_proxy sample_object) None) {#Client_handle#} = Some {#Client_handle#}"
proof -
  obtain res where r: "proxy_run empty_libs checked_actions (pooled_proxy sample_object) None = Inr res"
    by (rule exE [OF checked_run])
  show ?thesis
    by (rule run_leaks_nothing [OF _ r]) (simp add: empty_libs_def cell_store_def)
qed

text \<open>
  C39: the health check leaks: where the record it looks for exists, while the database can be reached and
  the objects are alive, the server grows by the contents of one record for each object of the pool
  at each check, and by nothing else, whatever its clients do.
\<close>

theorem run_leaks_records:
  assumes "keeps_record L I (as_key_init ''ns'' ''set'' ''key'') bs" and "I w"
    and "\<forall>t x. objects_of p t = Some x \<longrightarrow> isalive x" and "proxy_inv p" and "\<not> io_stopped (srv p)"
    and "Signalled \<notin> set as" and "\<forall>t i ev. Completed t i ev \<in> set as \<longrightarrow> t \<in> dom (objects_of p)"
    and "\<forall>order. Tick order \<in> set as \<longrightarrow> distinct order \<and> set order = dom (objects_of p)"
    and "proxy_run L as p w = Inr res"
  shows "ledger (run_events L as p w) M =
    Some (M + replicate_mset (length (filter is_tick as) * card (dom (objects_of p))) Record_contents)"
proof -
  have "healthy I (asOP (srv p)) w" using assms(2,3) by (simp add: healthy_def alive_pool_def objects_of_def)
  from leaves_run_healthy [OF assms(1) this assms(4-9)] show ?thesis by (simp add: leaves_def)
qed

lemma run_leaks_records_witness:
  "ledger (run_events (sample_libs\<lparr>lib_as := full_store\<rparr>) checked_actions (pooled_proxy sample_object) None) {#} =
     Some (replicate_mset 4 Record_contents)"
proof -
  let ?L = "sample_libs\<lparr>lib_as := full_store\<rparr>" and ?p = "pooled_proxy sample_object"
  obtain res where r: "proxy_run ?L checked_actions ?p None = Inr res" by (rule exE [OF checked_run])
  have k: "keeps_record ?L (\<lambda>w. True) (as_key_init ''ns'' ''set'' ''key'') []"
    by (simp add: keeps_record_def full_store_def cell_store_def)
  have o: "objects_of ?p = [1 \<mapsto> sample_object, 2 \<mapsto> sample_object]"
    by (simp add: objects_of_def pooled_proxy_def)
  have "proxy_inv accepted_proxy"
    by (rule proxy_inv_run [OF proxy_inv_new accepted_run [unfolded sample_proxy_def]])
  then have i: "proxy_inv ?p" by (simp add: pooled_proxy_def proxy_inv_def)
  have n: "\<not> io_stopped (srv ?p)" by (simp add: pooled_proxy_def accepted_facts)
  have d: "dom (objects_of ?p) = {1, 2}" unfolding o by auto
  have "ledger (run_events ?L checked_actions ?p None) {#} =
      Some ({#} + replicate_mset (length (filter is_tick checked_actions) * card (dom (objects_of ?p))) Record_contents)"
  proof (rule run_leaks_records [OF k TrueI _ i n _ _ _ r])
    show "\<forall>t x. objects_of ?p t = Some x \<longrightarrow> isalive x"
      unfolding o by (simp add: sample_object_def)
  qed (auto simp: d checked_actions_def)
  moreover have "card (dom (objects_of ?p)) = 2" by (simp add: d)
  ultimately show ?thesis by (simp add: checked_actions_def)
qed

end
