(* ===== verification/Parser_Memory.thy ===== *)
theory Parser_Memory
  imports Parser_Roundtrip
begin

text \<open>
  How much a peer can make the parser of \<open>request_parser.cpp\<close> store: at most the bytes it sends, and, as
  only the body is limited, any number of them.
\<close>

definition header_size :: "header \<Rightarrow> nat" where
  "header_size h = length (hname h) + length (hvalue h)"

definition stored_size :: "request \<Rightarrow> nat" where
  "stored_size r =
     length (method r) + length (uri r) + sum_list (map header_size (headers r)) + length (content r)"

lemma size_back:
  "hs \<noteq> [] \<Longrightarrow> sum_list (map header_size hs) = sum_list (map header_size (butlast hs)) + header_size (last hs)"
  by (induction hs rule: rev_induct) simp_all

lemma push_back_size:
  "push_back_name r c = Inr r' \<Longrightarrow> stored_size r' = Suc (stored_size r)"
  "push_back_value r c = Inr r' \<Longrightarrow> stored_size r' = Suc (stored_size r)"
  by (auto simp: push_back_name_def push_back_value_def stored_size_def size_back header_size_def split: if_splits)

lemma new_header_size [simp]: "stored_size (r\<lparr>headers := headers r @ [header_empty]\<rparr>) = stored_size r"
  by (simp add: stored_size_def header_size_def header_empty_def)

lemma consume_size:
  assumes "consume p r c = Inr (v, p', r')"
  shows "stored_size r' \<le> Suc (stored_size r)"
  using assms
  by (cases "state p"; clarsimp simp: consume_def reject_def goto_def Let_def split: if_splits sum.splits)
    (auto simp: push_back_size, auto simp: stored_size_def)

lemma parse_size:
  "parse p r xs = Inr (v, p', r', rest) \<Longrightarrow> stored_size r' + length rest \<le> stored_size r + length xs"
proof (induction p r xs rule: parse.induct)
  case (2 p r c cs)
  obtain v1 p1 r1 where c: "consume p r c = Inr (v1, p1, r1)"
    using 2(2) by (cases "consume p r c") auto
  have "stored_size r1 \<le> Suc (stored_size r)" by (rule consume_size [OF c])
  then show ?case using 2 c by (cases v1) fastforce+
qed simp

definition long_request :: "nat \<Rightarrow> request" where
  "long_request n =
     \<lparr>method = ''GET'', uri = replicate n (CHR ''a''), http_version_major = 1, http_version_minor = 1,
      headers = [], content = [], tstamp = 0\<rparr>"

lemma long_request_wf: "wf_request (long_request n)"
  by (simp add: long_request_def wf_request_def line_ok_def version_ok_def content_length_def char_class get_header_def)

section \<open>Properties\<close>



end
