(* ===== verification/Mime_Types.thy ===== *)
theory Mime_Types
  imports Prelude
begin

text \<open>
  \<open>include/mime_types.hpp\<close> and \<open>src/mime_types.cpp\<close>: the table of extensions, ended by a null
  pointer in the source and by the end of the list here, and its linear search.
\<close>

record mapping =
  extension :: string
  mime_type :: string

definition mappings :: "mapping list" where
  "mappings =
     [\<lparr>extension = ''gif'', mime_type = ''image/gif''\<rparr>,
      \<lparr>extension = ''htm'', mime_type = ''text/html''\<rparr>,
      \<lparr>extension = ''html'', mime_type = ''text/html''\<rparr>,
      \<lparr>extension = ''jpg'', mime_type = ''image/jpeg''\<rparr>,
      \<lparr>extension = ''png'', mime_type = ''image/png''\<rparr>]"

fun search_mappings :: "mapping list \<Rightarrow> string \<Rightarrow> string" where
  "search_mappings [] e = ''text/plain''"
| "search_mappings (m # ms) e = (if extension m = e then mime_type m else search_mappings ms e)"

definition extension_to_type :: "string \<Rightarrow> string" where
  "extension_to_type e = search_mappings mappings e"

lemma search_mappings_default:
  "e \<notin> extension ` set ms \<Longrightarrow> search_mappings ms e = ''text/plain''"
  by (induction ms) auto

lemma search_mappings_found:
  "distinct (map extension ms) \<Longrightarrow> m \<in> set ms \<Longrightarrow> search_mappings ms (extension m) = mime_type m"
  by (induction ms) auto

text \<open>
  An extension of the table has the type of its own entry, whatever its place in the table,
  and every other string, the empty one included, is plain text.
\<close>

theorem extension_to_type_table:
  "if e \<in> extension ` set mappings
   then \<exists>m \<in> set mappings. extension m = e \<and> extension_to_type e = mime_type m
   else extension_to_type e = ''text/plain''"
proof -
  have "distinct (map extension mappings)" by (simp add: mappings_def)
  then show ?thesis
    by (auto simp: extension_to_type_def search_mappings_found search_mappings_default)
qed

end
