(* ===== verification/Spec2Isabelle.thy ===== *)
theory Spec2Isabelle
  imports Concurrent_Get Whole_Program Startup Check_Race Run_Resources Parser_Memory Mime_Types
begin

text \<open>
  \<^bold>\<open>as_proxyd\<close>, an HTTP proxy in front of an Aerospike database: a pool of threads runs one event
  loop; it accepts connections, reads requests with an incremental parser, fetches the record a
  request names from the database with the object of the running thread, and answers with JSON.

  \<^bold>\<open>How the program's parts interact.\<close> \<open>main\<close> (\<open>src/main.cpp\<close>) finds its configuration file beside
  its executable, reads it with the ini reader (\<open>INIReader.cpp\<close> over \<open>ini.c\<close>), builds the pool
  \<open>AS_CONTROL\<close> (\<open>as_control.hpp\<close>) and the server (\<open>server.cpp\<close>), and runs it. The server accepts
  connections (\<open>connection.cpp\<close>), each of which feeds what it reads to its parser
  (\<open>request_parser.cpp\<close>), hands a complete request to the request handler (\<open>request_handler.cpp\<close>) and
  writes the reply (\<open>reply.cpp\<close>). The handler decodes and splits the URI, takes the thread's
  \<open>AS_OBJECT\<close> (\<open>as_object.hpp\<close>) from the pool and converts the bins of the record to JSON, with
  \<open>wp_base64.cpp\<close> and \<open>as_gzip.cpp\<close> for string bins. A timer of the server checks the objects of the
  pool and reconnects those that fail.

  \<^bold>\<open>The theories\<close>, from the bottom:

  \<^item> \<open>Prelude\<close>: undefined behaviour as a value (\<open>ub\<close>, \<open>'a outcome\<close>), \<open>char\<close> as signed and unsigned
    number, \<open>std::string\<close> operations, decimal numerals; the collections of rewrite rules.
    \<open>C_Stdlib\<close>: \<open>strtol\<close>, \<open>atoi\<close>, \<open>operator>>\<close> of an \<open>istream\<close>. \<open>Ostream\<close>: \<open>operator<<\<close> of a double.
  \<^item> \<open>Boost_Lib\<close>, \<open>Jansson\<close>, and the records \<open>zlib\<close> and \<open>aerospike\<close>: the third-party libraries, each
    a record of functions that is an argument of the definitions that call it. What the code relies
    on is a predicate (\<open>boost_contract\<close>, \<open>jansson_contract\<close>, \<open>inflates_to\<close>, \<open>store_law\<close>,
    \<open>record_set_appends\<close>), which an instance in the same theory satisfies.
  \<^item> \<open>Http_Message\<close> (\<open>header.hpp\<close>, \<open>request.hpp\<close>); \<open>Request_Parser\<close> and \<open>Parser_Roundtrip\<close>
    (\<open>request_parser.hpp\<close>, \<open>request_parser.cpp\<close>): the parser with all its states, its invariant
    \<open>parser_inv\<close>, the set of requests it accepts (\<open>wf_request\<close>), and a printer \<open>render\<close> it inverts;
    \<open>Parser_Memory\<close>: how much it stores.
    \<open>Incremental\<close> states what a reader of a stream relies on of a parser (locale
    \<open>incremental_parser\<close>, interpreted as \<open>http\<close>).
  \<^item> \<open>Reply\<close> (\<open>reply.hpp\<close>, \<open>reply.cpp\<close>), with a client's reader of replies (\<open>read_reply\<close>).
  \<^item> \<open>Codec\<close> (locale \<open>codec\<close>, interpreted as \<open>b64\<close> and \<open>url\<close>), \<open>Base64\<close> (\<open>wp_base64.hpp\<close>,
    \<open>wp_base64.cpp\<close>), \<open>Util\<close> (\<open>util.cpp\<close>), \<open>Mime_Types\<close>, \<open>Microtime\<close>, \<open>Json_Util\<close>
    (\<open>jsonutil.hpp\<close>), \<open>As_Gzip\<close> (\<open>as_gzip.cpp\<close>). \<open>Calendar\<close>: the calendar functions of the C library
    (\<open>gmtime\<close>, \<open>timegm\<close>, \<open>strftime\<close>, \<open>strptime\<close>) that \<open>Util_System\<close> uses, the functions of \<open>util.cpp\<close> that
    ask the clock or the file system or write the log.
  \<^item> \<open>Ini\<close> (\<open>ini.h\<close>, \<open>ini.c\<close>) and \<open>Ini_Reader\<close> (\<open>INIReader.hpp\<close>, \<open>INIReader.cpp\<close>): the line parser
    with a callback (locale \<open>accepting_handler\<close>, interpreted as \<open>vh\<close> on \<open>ValueHandler\<close>).
  \<^item> \<open>As_Object\<close> (\<open>as_object.hpp\<close>) and \<open>As_Control\<close> (\<open>as_control.hpp\<close>): an object on one connection to
    the database, and the pool of them (locales \<open>object_pool\<close> and \<open>monitored\<close>, interpreted as \<open>pool\<close>
    and \<open>mon\<close>). \<open>Pool_Race\<close>: the main thread and the threads of the pool entering objects at the same
    time, as an abstract race on numbered objects, and \<open>Startup\<close>: the same on the pool itself, bisimilar to it;
    \<open>Check_Race\<close>: the health check and a handler at the same time on one object. All are step
    relations.
  \<^item> \<open>Request_Handler\<close> (\<open>request_handler.cpp\<close>), \<open>Connection\<close> (\<open>connection.hpp\<close>, \<open>connection.cpp\<close>; locale
    \<open>framed_service\<close>, interpreted as \<open>svc\<close> on the handler), \<open>Session\<close>: the abstract server a connection
    refines; \<open>Main_Config\<close> (\<open>main.cpp\<close>, \<open>config.hpp\<close>) and \<open>Server\<close> (\<open>server.hpp\<close>, \<open>server.cpp\<close>).
  \<^item> \<open>Main_Boot\<close>: all of \<open>main\<close> with its log, a refinement of \<open>main_start\<close> in \<open>Main_Config\<close>. \<open>Proxy\<close>: the running program, the
    server with its connections, the pool and the database: any interleaving of accepts, completions
    of reads and writes, health checks and the stop (\<open>proxy_run\<close>); \<open>Proxy_Properties\<close>: what it promises;
    \<open>Concurrent_Get\<close>: how it delivers a record while the database has it. \<open>Boot_Run\<close>: the loop of \<open>Initialize\<close>
    interleaved with the running server; \<open>Whole_Program\<close>: \<open>main\<close> from its first line to its return, over
    all of these.
  \<^item> \<open>Resources\<close>: the blocks, the references to JSON values and the handles that each function acquires,
    releases and hands over, in the order of the code, along the branches of its model: \<open>f_events\<close> for \<open>f\<close>.
    \<open>Run_Resources\<close>: the same over a whole run of the server.

  \<^bold>\<open>State.\<close> A class is a record of its data members under their names; a method is a function from the
  object, and the state of the world where it calls the database or the clock, to the new ones.
  The pending operations of Boost.Asio are members (\<open>pending\<close> of a connection, the three waits of a
  server), and a completion is an event of \<open>conn_event\<close>, a step of \<open>server_step\<close> or an action of \<open>proxy_act\<close>. A read of
  uninitialised memory, a signed overflow, an access out of bounds and a null pointer are values of
  \<open>ub\<close>, never a default, so that their absence can be stated and proved.

  \<^bold>\<open>What the lemmas show.\<close> The parser accepts exactly the well-formed requests, inverts the printer,
  is independent of how the stream is cut, stays in bounds, stores no more than it reads; a connection is a refinement of the
  abstract server and only sends complete replies; the handler answers with framed replies that
  hold what the database has. In any interleaving of any number of connections each client is sent
  the replies to its own requests in their order, reads them all, and the only undefined behaviour
  is that of two findings; a request that arrives is answered, and one for a record the database keeps is
  answered with the record. A run of the server leaks nothing and frees nothing
  twice, apart from what the health check leaks. What \<open>PUT\<close> stores \<open>GET\<close> returns; the codecs are inverse to each
  other; the ini reader returns what the file says, and the program starts with it; the server goes
  on accepting, the pool has an object for each thread, the periodic check revives objects; the program
  serves until it is stopped and then destroys its objects, apart from those the race at its start makes
  twice. The reply depends on the path and three parameters only. Where the
  code falls short of this, a theorem states exactly what happens instead.

  \<^bold>\<open>Bounds and fuel.\<close> Lines of an ini file are read in pieces of at most 199 characters
  (\<open>INI_MAX_LINE - 1\<close>), and the loop over them ends as each piece shortens the file.
  \<open>neg_exp\<close> counts the decimal exponent of a number below one with a fuel of 400, more than the
  exponents of a double. \<open>gz_loop\<close> ends after at most 12 attempts. The loops that may not
  end, \<open>split_loop\<close>, \<open>cb_digits\<close> and \<open>deflate_loop\<close>, are partial functions to an option, and their
  theorems say when they end.

  \<^bold>\<open>Interleaving.\<close> The event loop runs a handler to its end before another handler of the same
  connection starts (its strand). Handlers of different connections run on different threads and
  share the pool and the database; \<open>Proxy\<close> interleaves them as whole handlers. What threads do to
  the pool inside \<open>GetAsObject\<close> and \<open>Initialize\<close> at the same time is \<open>startup_step\<close> of \<open>Startup\<close> (\<open>Boot_Run\<close> takes an iteration of
  \<open>Initialize\<close> and a handler as one step each), and what the
  health check and \<open>GET\<close> do to one object is \<open>race_move\<close> of \<open>Check_Race\<close>, which shows that for them
  whole operations one after the other give all results there are. Each step is atomic: what C++ leaves
  undefined of unsynchronised accesses, and what a hash table does under them, is left out.

  \<^bold>\<open>Not modelled.\<close> Sockets and address resolution (an argument says whether listening succeeds),
  interleavings inside a handler other than those above, \<open>log_request\<close>, whose body is a comment, and \<open>reader.h\<close>,
  which nothing includes. Exceptions of the C++ library for lack of memory are not raised. Doubles are
  rationals with a rounding function as an argument where rounding matters. What is left of the source
  besides these are declarations, includes and data of the build.
\<close>

section \<open>Properties that span components\<close>

text \<open>
  C1: a whole session refines the abstract server: driven by the completions of a session, a new
  connection writes the replies the handler gives to the requests one after the other, up to the
  first that does not keep the connection, and leaves the pool and the database as the handler
  does; how the bytes of each request are cut into reads, and what is left over of the previous
  request and reply in the connection's members, makes no difference.
\<close>

theorem session_served:
  assumes "list_all exchange_ok xs"
  shows "observed (conn_run (lib_boost L) (handle_request L t) (session_events xs)
      (conn_start (connection_new a b st w)) s) = serve L t xs s"
  using ready_start assms by (rule session_run)

lemma session_served_witness:
  "\<exists>out s'. observed (conn_run boost_ref (handle_request sample_libs (1 :: nat))
     (session_events
       [(uri_request ''/status?'', [''GE'', drop 2 (render (uri_request ''/status?''))], 7),
        (uri_request ''/status?'', [render (uri_request ''/status?'')], 8)])
     (conn_start (connection_new 0 0 Ok 0)) (sample_control, None)) = Inr ([out, out], s')"
proof -
  let ?r = "uri_request ''/status?''"
  let ?xs = "[(?r, [''GE'', drop 2 (render ?r)], 7), (?r, [render ?r], 8)]"
  have "render ?r = ''GET /status? HTTP/1.1'' @ crlf @ crlf"
    by (simp add: render_def render_line_def uri_request_def dec_eval crlf_def)
  then have ok: "list_all exchange_ok ?xs"
    by (simp add: exchange_ok_def status_request_wf crlf_def)
  have "handle_request sample_libs (1 :: nat) (?r\<lparr>tstamp := x\<rparr>) (reply_new Ok) True s =
      handle_request sample_libs (1 :: nat) ?r (reply_new Ok) True s" for x s
    by (simp add: handle_request_def)
  moreover have "want_keepalive boost_ref ?r = True"
    by (simp add: want_keepalive_def is_http11_def uri_request_def get_header_def boost_ref_def)
  moreover have "lib_boost sample_libs = boost_ref" by (simp add: sample_libs_def)
  ultimately show ?thesis
    using session_served [OF ok, of sample_libs "1 :: nat" 0 0 Ok 0 "(sample_control, None)"]
    by (simp add: sample_status)
qed



end
